theory Spec2Isabelle
  imports Complex_Main "HOL-Library.Log_Nat"
begin

section \<open>JavaScript numbers\<close>

text \<open>
  A JavaScript number is an IEEE 754 double. A finite double is a rational, and the
  result of an arithmetic operation on doubles is the exact result rounded to the
  nearest double, ties to the even significand. \<open>fl\<close> is that rounding, with a
  significand of 53 bits: \<open>a / b\<close> in the code is \<open>fl (a / b)\<close> here, the literal
  \<open>0.1\<close> is \<open>fl (1 / 10)\<close>. The exponent is not bounded: no number of the program comes
  near the overflow to \<open>Infinity\<close> or the subnormal range.
\<close>

definition round_half_even :: "rat \<Rightarrow> int" where
  "round_half_even x =
     (let f = \<lfloor>x\<rfloor>; r = x - of_int f in
      if r < 1 / 2 then f
      else if 1 / 2 < r then f + 1
      else if even f then f else f + 1)"

text \<open>The exponent \<open>e\<close> of a positive number: \<open>2^e \<le> x < 2^(e+1)\<close>.\<close>

definition binade :: "rat \<Rightarrow> int" where
  "binade x =
     (let (p, q) = quotient_of x; d = bitlen p - bitlen q in
      if 2 powi d \<le> x then d else d - 1)"

definition fl :: "rat \<Rightarrow> rat" where
  "fl x =
     (if x = 0 then 0
      else let ulp = 2 powi (binade \<bar>x\<bar> - 52) in
           sgn x * of_int (round_half_even (\<bar>x\<bar> / ulp)) * ulp)"

section \<open>Configuration (src/market/MarketDataProvider.js, class ConfigManager)\<close>

text \<open>
  \<open>validate(key, validator, defaultValue)\<close>: a variable that is not set gives the default
  as it is written, without the validator; otherwise the validator is applied to the
  string, and \<open>None\<close> is the error it throws. A numeric string is given by the rational
  it denotes; \<open>parseFloat\<close> rounds it to a double.
\<close>

definition validate :: "'a option \<Rightarrow> ('a \<Rightarrow> 'b option) \<Rightarrow> 'b \<Rightarrow> 'b option" where
  "validate env validator defaultValue =
     (case env of None \<Rightarrow> Some defaultValue | Some v \<Rightarrow> validator v)"

definition validateNumber :: "rat \<Rightarrow> rat \<Rightarrow> rat \<Rightarrow> rat option" where
  "validateNumber lo hi v = (let num = fl v in if num < lo \<or> num > hi then None else Some num)"

definition validatePercentage :: "rat \<Rightarrow> rat option" where
  "validatePercentage v =
     (case validateNumber 0 100 v of None \<Rightarrow> None | Some pct \<Rightarrow> Some (fl (pct / 100)))"

section \<open>Circuit breaker (src/market/MarketDataProvider.js, class CircuitBreaker)\<close>

text \<open>
  The configuration fields read by the circuit breaker. The two thresholds are doubles:
  \<open>maxFailureRate\<close> is \<open>validate env validatePercentage 50\<close> and \<open>emergencyStopLoss\<close> is
  \<open>validate env validatePercentage 30\<close>, a percentage divided by 100 when it comes from
  the environment.
\<close>

record cb_config =
  enableCircuitBreaker :: bool
  maxConsecutiveFailures :: nat
  failureRateWindow :: nat
  maxFailureRate :: rat
  emergencyStopLoss :: rat

text \<open>The fields the constructor initialises.\<close>

record circuit_breaker =
  consecutiveFailures :: nat
  recentTrades :: "bool list"
  initialSinkBalance :: int
  checkCounter :: nat

definition cb_constructor :: circuit_breaker where
  "cb_constructor =
     \<lparr>consecutiveFailures = 0, recentTrades = [], initialSinkBalance = 0, checkCounter = 0\<rparr>"

text \<open>
  The reason string of a trip is built from numbers of the state; the model keeps those
  numbers: the streak, the failures and the length of the window, the loss in basis points.
\<close>

datatype trip_reason =
  NoReason
  | ConsecutiveFailuresReason nat
  | FailureRateReason nat nat
  | StopLossReason int

record check_result =
  tripped :: bool
  reason :: trip_reason

definition not_tripped :: check_result where
  "not_tripped = \<lparr>tripped = False, reason = NoReason\<rparr>"

text \<open>What the code can catch: a rejected RPC call (\<open>connection.getBalance\<close>,
  \<open>sendTransaction\<close>, ...), a secret key that \<open>Keypair.fromSecretKey\<close> refuses, a
  property read on \<open>undefined\<close>.\<close>

datatype js_error = RpcError | InvalidSecretKey | TypeError

type_synonym pubkey = string

definition SINK_BALANCE_CHECK_INTERVAL :: nat where
  "SINK_BALANCE_CHECK_INTERVAL = 5"

text \<open>\<open>recordTradeResult(success)\<close>: push, drop the oldest entry beyond the window, then
  reset or extend the streak.\<close>

definition recordTradeResult :: "cb_config \<Rightarrow> bool \<Rightarrow> circuit_breaker \<Rightarrow> circuit_breaker" where
  "recordTradeResult cfg success s =
     (if \<not> enableCircuitBreaker cfg then s
      else
        let pushed = recentTrades s @ [success];
            window = (if length pushed > failureRateWindow cfg then tl pushed else pushed)
        in s\<lparr>recentTrades := window,
              consecutiveFailures := (if success then 0 else consecutiveFailures s + 1)\<rparr>)"

definition checkConsecutiveFailures :: "cb_config \<Rightarrow> circuit_breaker \<Rightarrow> check_result" where
  "checkConsecutiveFailures cfg s =
     (if consecutiveFailures s \<ge> maxConsecutiveFailures cfg
      then \<lparr>tripped = True, reason = ConsecutiveFailuresReason (consecutiveFailures s)\<rparr>
      else not_tripped)"

text \<open>\<open>failures / length\<close>, a division of doubles, is NaN on an empty window, and NaN is
  greater than nothing.\<close>

definition failure_rate_exceeds :: "cb_config \<Rightarrow> nat \<Rightarrow> nat \<Rightarrow> bool" where
  "failure_rate_exceeds cfg failures len =
     (len \<noteq> 0 \<and> fl (of_nat failures / of_nat len) > maxFailureRate cfg)"

definition checkFailureRate :: "cb_config \<Rightarrow> circuit_breaker \<Rightarrow> check_result" where
  "checkFailureRate cfg s =
     (if length (recentTrades s) \<ge> failureRateWindow cfg then
        let failures = length (filter (\<lambda>r. \<not> r) (recentTrades s)) in
        if failure_rate_exceeds cfg failures (length (recentTrades s))
        then \<lparr>tripped = True, reason = FailureRateReason failures (length (recentTrades s))\<rparr>
        else not_tripped
      else not_tripped)"

text \<open>BigInt division truncates towards zero (the divisor is positive where it is used).\<close>

definition bigint_div :: "int \<Rightarrow> int \<Rightarrow> int" where
  "bigint_div a b = sgn a * sgn b * (\<bar>a\<bar> div \<bar>b\<bar>)"

text \<open>
  \<open>checkEmergencyStopLoss(connection, sinkKeypair)\<close>. The connection is the function
  answering \<open>getBalance\<close>; the counter is incremented before anything can fail, so the
  state is returned beside the result or the error. \<open>lossPercent\<close> is a BigInt, the loss
  in basis points; \<open>Number(lossPercent) / 10000\<close> converts it to a double and divides
  doubles, and the comparison with the threshold is one of doubles.
\<close>

definition checkEmergencyStopLoss ::
  "cb_config \<Rightarrow> (pubkey \<Rightarrow> js_error + int) \<Rightarrow> pubkey option \<Rightarrow> circuit_breaker
     \<Rightarrow> circuit_breaker \<times> (js_error + check_result)" where
  "checkEmergencyStopLoss cfg getBalance sinkKeypair s =
     (let s1 = s\<lparr>checkCounter := checkCounter s + 1\<rparr> in
      case sinkKeypair of
        None \<Rightarrow> (s1, Inr not_tripped)
      | Some sink \<Rightarrow>
          if initialSinkBalance s1 > 0 \<and> checkCounter s1 mod SINK_BALANCE_CHECK_INTERVAL = 0 then
            (case getBalance sink of
               Inl e \<Rightarrow> (s1, Inl e)
             | Inr currentBalance \<Rightarrow>
                 let lossAmount = initialSinkBalance s1 - currentBalance in
                 if initialSinkBalance s1 \<le> 0 then (s1, Inr not_tripped)
                 else
                   let lossPercent = bigint_div (lossAmount * 10000) (initialSinkBalance s1);
                       lossDecimal = fl (fl (of_int lossPercent) / 10000)
                   in if lossDecimal > emergencyStopLoss cfg
                      then (s1, Inr \<lparr>tripped = True, reason = StopLossReason lossPercent\<rparr>)
                      else (s1, Inr not_tripped))
          else (s1, Inr not_tripped))"

text \<open>The loop of \<open>checkCircuitBreakers\<close> over its array of checks: the first tripped
  result (or the first rejection) is returned and the remaining checks are not called.\<close>

type_synonym cb_check = "circuit_breaker \<Rightarrow> circuit_breaker \<times> (js_error + check_result)"

fun run_checks :: "cb_check list \<Rightarrow> circuit_breaker \<Rightarrow> circuit_breaker \<times> (js_error + check_result)" where
  "run_checks [] s = (s, Inr not_tripped)"
| "run_checks (check # checks) s =
     (case check s of
        (s', Inl e) \<Rightarrow> (s', Inl e)
      | (s', Inr result) \<Rightarrow> if tripped result then (s', Inr result) else run_checks checks s')"

definition checkCircuitBreakers ::
  "cb_config \<Rightarrow> (pubkey \<Rightarrow> js_error + int) \<Rightarrow> pubkey option \<Rightarrow> circuit_breaker
     \<Rightarrow> circuit_breaker \<times> (js_error + check_result)" where
  "checkCircuitBreakers cfg getBalance sinkKeypair s =
     (if \<not> enableCircuitBreaker cfg then (s, Inr not_tripped)
      else run_checks
             [\<lambda>s. (s, Inr (checkConsecutiveFailures cfg s)),
              \<lambda>s. (s, Inr (checkFailureRate cfg s)),
              checkEmergencyStopLoss cfg getBalance sinkKeypair] s)"

text \<open>The outcomes reported by the trading engine, recorded in order.\<close>

definition record_all :: "cb_config \<Rightarrow> bool list \<Rightarrow> circuit_breaker \<Rightarrow> circuit_breaker" where
  "record_all cfg outcomes s = fold (recordTradeResult cfg) outcomes s"

text \<open>The three conditions, as predicates of the state (the third also of the balance read).\<close>

definition consecutive_condition :: "cb_config \<Rightarrow> circuit_breaker \<Rightarrow> bool" where
  "consecutive_condition cfg s = (maxConsecutiveFailures cfg \<le> consecutiveFailures s)"

definition rate_condition :: "cb_config \<Rightarrow> circuit_breaker \<Rightarrow> bool" where
  "rate_condition cfg s =
     (failureRateWindow cfg \<le> length (recentTrades s) \<and>
      failure_rate_exceeds cfg (length (filter (\<lambda>r. \<not> r) (recentTrades s))) (length (recentTrades s)))"


definition drawdown_condition ::
  "cb_config \<Rightarrow> (pubkey \<Rightarrow> js_error + int) \<Rightarrow> pubkey option \<Rightarrow> circuit_breaker \<Rightarrow> bool" where
  "drawdown_condition cfg getBalance sinkKeypair s =
     (case sinkKeypair of
        None \<Rightarrow> False
      | Some sink \<Rightarrow>
          initialSinkBalance s > 0 \<and>
          (checkCounter s + 1) mod SINK_BALANCE_CHECK_INTERVAL = 0 \<and>
          (case getBalance sink of
             Inl e \<Rightarrow> False
           | Inr currentBalance \<Rightarrow>
               fl (fl (of_int (bigint_div ((initialSinkBalance s - currentBalance) * 10000)
                                     (initialSinkBalance s))) / 10000) > emergencyStopLoss cfg))"

text \<open>A call trips when it resolves with \<open>tripped: true\<close>.\<close>

definition trips :: "circuit_breaker \<times> (js_error + check_result) \<Rightarrow> bool" where
  "trips out = (case snd out of Inl e \<Rightarrow> False | Inr r \<Rightarrow> tripped r)"

text \<open>Successive calls of \<open>checkEmergencyStopLoss\<close>, each with the connection as it
  answers then.\<close>

definition stop_loss_calls ::
  "cb_config \<Rightarrow> pubkey option \<Rightarrow> (pubkey \<Rightarrow> js_error + int) list \<Rightarrow> circuit_breaker \<Rightarrow> circuit_breaker" where
  "stop_loss_calls cfg sinkKeypair replies s =
     fold (\<lambda>getBalance s. fst (checkEmergencyStopLoss cfg getBalance sinkKeypair s)) replies s"

text \<open>
  The only assignment to \<open>initialSinkBalance\<close> after the constructor, in
  \<open>VolumeBoosterBot.init\<close> before the loop starts: with a sink, its balance is stored.
\<close>

definition lock_initial_balance ::
  "(pubkey \<Rightarrow> js_error + int) \<Rightarrow> pubkey option \<Rightarrow> circuit_breaker \<Rightarrow> js_error + circuit_breaker" where
  "lock_initial_balance getBalance sinkKeypair s =
     (case sinkKeypair of
        None \<Rightarrow> Inr s
      | Some sink \<Rightarrow>
          (case getBalance sink of
             Inl e \<Rightarrow> Inl e
           | Inr b \<Rightarrow> Inr (s\<lparr>initialSinkBalance := b\<rparr>)))"

text \<open>A configuration with \<open>maxConsecutiveFailures = 3\<close>, for the examples; the two
  percentages are 50 and 30.\<close>

definition cfg3 :: cb_config where
  "cfg3 = \<lparr>enableCircuitBreaker = True, maxConsecutiveFailures = 3, failureRateWindow = 10,
           maxFailureRate = fl (50 / 100), emergencyStopLoss = fl (30 / 100)\<rparr>"

text \<open>
  What the specification asks of the drawdown: the loss in basis points of the baseline,
  computed in integers, exceeds the threshold given in basis points.
\<close>

definition spec_drawdown_trips :: "int \<Rightarrow> int \<Rightarrow> int \<Rightarrow> bool" where
  "spec_drawdown_trips thresholdBp initial current =
     (bigint_div ((initial - current) * 10000) initial > thresholdBp)"

section \<open>Burner wallet manager (src/wallet/BurnerWalletManager.js)\<close>

text \<open>
  A JavaScript \<open>Map\<close> iterates in insertion order, and \<open>getAvailableBurners\<close> returns
  the burners in the order of its iteration over \<open>burnerWallets\<close>: that map is an
  association list. \<open>set\<close> on a present key keeps its place, on a new key appends;
  \<open>delete\<close> removes the entry. The other maps are only looked up and updated per key.
\<close>

fun map_set :: "'k \<Rightarrow> 'v \<Rightarrow> ('k \<times> 'v) list \<Rightarrow> ('k \<times> 'v) list" where
  "map_set k v [] = [(k, v)]"
| "map_set k v ((k', v') # m) = (if k' = k then (k, v) # m else (k', v') # map_set k v m)"

definition map_delete :: "'k \<Rightarrow> ('k \<times> 'v) list \<Rightarrow> ('k \<times> 'v) list" where
  "map_delete k m = filter (\<lambda>e. fst e \<noteq> k) m"

definition map_has :: "'k \<Rightarrow> ('k \<times> 'v) list \<Rightarrow> bool" where
  "map_has k m = (k \<in> set (map fst m))"

text \<open>\<open>map.get(key) || 0\<close>\<close>

definition get_or_0 :: "('k \<rightharpoonup> int) \<Rightarrow> 'k \<Rightarrow> int" where
  "get_or_0 m k = (case m k of None \<Rightarrow> 0 | Some v \<Rightarrow> v)"

datatype bwc_mode = ModeDisabled | ModeHybrid | ModeBurnerOnly

record bwc_config =
  bwcEnabled :: bool
  bwcMode :: bwc_mode
  bwcBurnerLifetimeTxs :: int
  enableBurnerSeasoning :: bool
  burnerSeasoningMinTxs :: int
  bwcBurnerRatio :: rat
  bwcEmergencyBurnerRatio :: rat
  bwcBurnerFundAmount :: int

text \<open>
  The manager's tracking structures. \<open>walletData\<close> is reduced to its creation time (the
  key pair is identified by the public key, the name is derived from it);
  \<open>disposalTimers\<close> lists the public keys for which \<open>setTimeout\<close> has registered a
  disposal. Statistics and logging are left out.
\<close>

record burner_manager =
  burnerWallets :: "(pubkey \<times> int) list"
  burnerCooldowns :: "pubkey \<rightharpoonup> int"
  burnerTradeCount :: "pubkey \<rightharpoonup> int"
  burnerSeasoningCount :: "pubkey \<rightharpoonup> int"
  pendingDisposal :: "pubkey set"
  disposalTimers :: "pubkey list"

definition bm_constructor :: burner_manager where
  "bm_constructor =
     \<lparr>burnerWallets = [], burnerCooldowns = Map.empty, burnerTradeCount = Map.empty,
      burnerSeasoningCount = Map.empty, pendingDisposal = {}, disposalTimers = []\<rparr>"

text \<open>The five deletions made together by \<open>cleanupBurners\<close> and \<open>disposeBurnerWallet\<close>.\<close>

definition forget_burner :: "pubkey \<Rightarrow> burner_manager \<Rightarrow> burner_manager" where
  "forget_burner pk m =
     m\<lparr>burnerWallets := map_delete pk (burnerWallets m),
       burnerCooldowns := (burnerCooldowns m)(pk := None),
       burnerTradeCount := (burnerTradeCount m)(pk := None),
       burnerSeasoningCount := (burnerSeasoningCount m)(pk := None),
       pendingDisposal := pendingDisposal m - {pk}\<rparr>"

definition EXPIRY_TIME :: int where
  "EXPIRY_TIME = 24 * 60 * 60 * 1000"

text \<open>\<open>cleanupBurners(now)\<close>: expired wallets are forgotten, cooldown entries older than
  an hour are deleted, trade counts are capped at 100 and seasoning counts at 20.\<close>

definition cap_counts :: "int \<Rightarrow> ('k \<rightharpoonup> int) \<Rightarrow> ('k \<rightharpoonup> int)" where
  "cap_counts c m = (\<lambda>k. case m k of None \<Rightarrow> None | Some n \<Rightarrow> Some (if n > c then c else n))"

definition drop_old_cooldowns :: "int \<Rightarrow> ('k \<rightharpoonup> int) \<Rightarrow> ('k \<rightharpoonup> int)" where
  "drop_old_cooldowns now m =
     (\<lambda>k. case m k of None \<Rightarrow> None
                   | Some t \<Rightarrow> if now - t > 3600000 then None else Some t)"

definition cleanupBurners :: "int \<Rightarrow> burner_manager \<Rightarrow> burner_manager" where
  "cleanupBurners now m =
     (let expired = map fst (filter (\<lambda>e. now - snd e > EXPIRY_TIME) (burnerWallets m));
          m1 = fold forget_burner expired m
      in m1\<lparr>burnerCooldowns := drop_old_cooldowns now (burnerCooldowns m1),
            burnerTradeCount := cap_counts 100 (burnerTradeCount m1),
            burnerSeasoningCount := cap_counts 20 (burnerSeasoningCount m1)\<rparr>)"

text \<open>
  \<open>getBurnerCooldown(txCount)\<close>: \<open>base\<close> is the double drawn by
  \<open>getRandomNumberBetween(30000, 60000)\<close>, taken as a parameter. The multiplier
  \<open>1 + (txCount * 0.1)\<close> and the product are computed in doubles.
\<close>

definition getBurnerCooldown :: "rat \<Rightarrow> int \<Rightarrow> int" where
  "getBurnerCooldown base txCount =
     (let txMultiplier = fl (1 + fl (of_int txCount * fl (1 / 10)))
      in \<lfloor>fl (base * txMultiplier)\<rfloor>)"

text \<open>
  \<open>shuffleArray(array)\<close>: Fisher-Yates on a copy, which is returned; the argument is not
  changed. \<open>draws i\<close> is the index \<open>Math.floor(Math.random() * (i + 1))\<close> drawn at
  position \<open>i\<close>, a number from 0 to \<open>i\<close>.
\<close>

fun shuffle_from :: "(nat \<Rightarrow> nat) \<Rightarrow> nat \<Rightarrow> 'a list \<Rightarrow> 'a list" where
  "shuffle_from draws 0 shuffled = shuffled"
| "shuffle_from draws (Suc i) shuffled =
     (let j = draws (Suc i)
      in shuffle_from draws i (shuffled[Suc i := shuffled ! j, j := shuffled ! Suc i]))"

definition shuffleArray :: "(nat \<Rightarrow> nat) \<Rightarrow> 'a list \<Rightarrow> 'a list" where
  "shuffleArray draws array = shuffle_from draws (length array - 1) array"

text \<open>The object pushed to \<open>available\<close> for a ready burner.\<close>

record available_burner =
  ab_pubkey :: pubkey
  ab_created :: int
  ab_txCount :: int
  ab_seasoningCount :: int
  ab_isSeasoned :: bool

text \<open>The test made in the loop of \<open>getAvailableBurners\<close> for one entry of the map.\<close>

definition burner_ready :: "bwc_config \<Rightarrow> int \<Rightarrow> (pubkey \<Rightarrow> rat) \<Rightarrow> burner_manager \<Rightarrow> pubkey \<Rightarrow> bool" where
  "burner_ready cfg now base m pk =
     (pk \<notin> pendingDisposal m \<and>
      (let lastUsed = get_or_0 (burnerCooldowns m) pk;
           txCount = get_or_0 (burnerTradeCount m) pk;
           cooldown = getBurnerCooldown (base pk) txCount;
           cooldownPassed = (now - lastUsed \<ge> cooldown);
           withinLifetime = (txCount < bwcBurnerLifetimeTxs cfg);
           seasoningCount = get_or_0 (burnerSeasoningCount m) pk;
           isSeasoned = (\<not> enableBurnerSeasoning cfg \<or> seasoningCount \<ge> burnerSeasoningMinTxs cfg)
       in cooldownPassed \<and> withinLifetime \<and> isSeasoned))"

definition as_available :: "bwc_config \<Rightarrow> burner_manager \<Rightarrow> pubkey \<times> int \<Rightarrow> available_burner" where
  "as_available cfg m e =
     \<lparr>ab_pubkey = fst e, ab_created = snd e,
      ab_txCount = get_or_0 (burnerTradeCount m) (fst e),
      ab_seasoningCount = get_or_0 (burnerSeasoningCount m) (fst e),
      ab_isSeasoned = (\<not> enableBurnerSeasoning cfg \<or>
                       get_or_0 (burnerSeasoningCount m) (fst e) \<ge> burnerSeasoningMinTxs cfg)\<rparr>"

text \<open>\<open>array.slice(0, end)\<close>: a negative \<open>end\<close> counts from the end of the array.\<close>

definition slice0 :: "'a list \<Rightarrow> int \<Rightarrow> 'a list" where
  "slice0 xs e = (if e < 0 then take (nat (int (length xs) + e)) xs else take (nat e) xs)"

text \<open>
  \<open>getAvailableBurners(count, emergencyMode)\<close>. \<open>now\<close> is \<open>Date.now()\<close>, \<open>base pk\<close> the
  random base cooldown drawn for \<open>pk\<close>, \<open>draws\<close> the indices drawn by the shuffle. The
  call \<open>this.shuffleArray(available)\<close> is a statement: the array it returns is dropped
  and \<open>available\<close> itself is sliced. \<open>Math.ceil\<close> is applied to the product of
  \<open>count\<close> and the ratio, a product of doubles.
\<close>

definition getAvailableBurners ::
  "bwc_config \<Rightarrow> int \<Rightarrow> (pubkey \<Rightarrow> rat) \<Rightarrow> (nat \<Rightarrow> nat) \<Rightarrow> int \<Rightarrow> bool \<Rightarrow> burner_manager
     \<Rightarrow> burner_manager \<times> available_burner list" where
  "getAvailableBurners cfg now base draws count emergencyMode m =
     (if \<not> bwcEnabled cfg \<or> bwcMode cfg = ModeDisabled then (m, [])
      else
        let m1 = cleanupBurners now m;
            available = map (as_available cfg m1)
                          (filter (\<lambda>e. burner_ready cfg now base m1 (fst e)) (burnerWallets m1));
            dropped = shuffleArray draws available;
            targetCount = (if emergencyMode
                           then \<lceil>fl (of_int count * bwcEmergencyBurnerRatio cfg)\<rceil>
                           else \<lceil>fl (of_int count * bwcBurnerRatio cfg)\<rceil>)
        in (m1, slice0 available (min targetCount count)))"

text \<open>\<open>scheduleBurnerDisposal(pubkey)\<close>\<close>

definition scheduleBurnerDisposal :: "pubkey \<Rightarrow> burner_manager \<Rightarrow> burner_manager" where
  "scheduleBurnerDisposal pk m =
     (if \<not> map_has pk (burnerWallets m) \<or> pk \<in> pendingDisposal m then m
      else m\<lparr>pendingDisposal := insert pk (pendingDisposal m),
             disposalTimers := disposalTimers m @ [pk]\<rparr>)"

text \<open>\<open>markBurnerSeasoningProgress(pubkey, txCount)\<close>\<close>

definition markBurnerSeasoningProgress :: "bwc_config \<Rightarrow> pubkey \<Rightarrow> int \<Rightarrow> burner_manager \<Rightarrow> burner_manager" where
  "markBurnerSeasoningProgress cfg pk txCount m =
     (if \<not> enableBurnerSeasoning cfg then m
      else m\<lparr>burnerSeasoningCount :=
                (burnerSeasoningCount m)(pk \<mapsto> get_or_0 (burnerSeasoningCount m) pk + txCount)\<rparr>)"

text \<open>\<open>markBurnerUsed(pubkey, txCount)\<close>, called at time \<open>now\<close>.\<close>

definition markBurnerUsed :: "bwc_config \<Rightarrow> int \<Rightarrow> pubkey \<Rightarrow> int \<Rightarrow> burner_manager \<Rightarrow> burner_manager" where
  "markBurnerUsed cfg now pk txCount m =
     (if \<not> map_has pk (burnerWallets m) then m
      else
        let currentCount = get_or_0 (burnerTradeCount m) pk;
            newCount = currentCount + txCount;
            m1 = m\<lparr>burnerTradeCount := (burnerTradeCount m)(pk \<mapsto> newCount),
                   burnerCooldowns := (burnerCooldowns m)(pk \<mapsto> now)\<rparr>;
            m2 = (if enableBurnerSeasoning cfg then markBurnerSeasoningProgress cfg pk txCount m1
                  else m1)
        in if newCount \<ge> bwcBurnerLifetimeTxs cfg then scheduleBurnerDisposal pk m2 else m2)"

text \<open>
  The state change of \<open>disposeBurnerWallet(pubkey)\<close>, run by the timer: nothing for an
  unknown key; otherwise (after the withdrawal, which does not touch the manager and
  catches its own errors) the wallet is deleted from every structure.
\<close>

definition disposeBurnerWallet :: "pubkey \<Rightarrow> burner_manager \<Rightarrow> burner_manager" where
  "disposeBurnerWallet pk m =
     (if \<not> map_has pk (burnerWallets m) then m else forget_burner pk m)"

text \<open>
  The state change of \<open>createBurnerWallet()\<close> for the generated key \<open>pk\<close> at time
  \<open>now\<close>: the wallet is entered with counts 0, and removed again when funding failed.
\<close>

definition createBurnerWallet :: "pubkey \<Rightarrow> int \<Rightarrow> bool \<Rightarrow> burner_manager \<Rightarrow> burner_manager \<times> bool" where
  "createBurnerWallet pk now fundingSuccess m =
     (let m1 = m\<lparr>burnerWallets := map_set pk now (burnerWallets m),
                 burnerTradeCount := (burnerTradeCount m)(pk \<mapsto> 0),
                 burnerCooldowns := (burnerCooldowns m)(pk \<mapsto> 0)\<rparr>
      in if fundingSuccess then (m1, True)
         else (m1\<lparr>burnerWallets := map_delete pk (burnerWallets m1),
                  burnerTradeCount := (burnerTradeCount m1)(pk := None),
                  burnerCooldowns := (burnerCooldowns m1)(pk := None)\<rparr>, False))"

text \<open>The operations on the manager, for runs of several calls.\<close>

datatype bm_op =
  MarkUsed int pubkey int
  | Schedule pubkey
  | Create pubkey int bool
  | Dispose pubkey
  | Query int "pubkey \<Rightarrow> rat" "nat \<Rightarrow> nat" int bool

fun bm_apply :: "bwc_config \<Rightarrow> bm_op \<Rightarrow> burner_manager \<Rightarrow> burner_manager" where
  "bm_apply cfg (MarkUsed now pk txCount) m = markBurnerUsed cfg now pk txCount m"
| "bm_apply cfg (Schedule pk) m = scheduleBurnerDisposal pk m"
| "bm_apply cfg (Create pk now ok) m = fst (createBurnerWallet pk now ok m)"
| "bm_apply cfg (Dispose pk) m = disposeBurnerWallet pk m"
| "bm_apply cfg (Query now base draws count emergency) m =
     fst (getAvailableBurners cfg now base draws count emergency m)"

text \<open>The burners returned by the availability queries of a run, in order.\<close>

fun bm_answers :: "bwc_config \<Rightarrow> bm_op list \<Rightarrow> burner_manager \<Rightarrow> available_burner list list" where
  "bm_answers cfg [] m = []"
| "bm_answers cfg (Query now base draws count emergency # ops) m =
     snd (getAvailableBurners cfg now base draws count emergency m)
       # bm_answers cfg ops (fst (getAvailableBurners cfg now base draws count emergency m))"
| "bm_answers cfg (op # ops) m = bm_answers cfg ops (bm_apply cfg op m)"


section \<open>Wallet funding (src/wallet/WalletManager.js, src/wallet/BurnerWalletManager.js)\<close>

text \<open>
  The RPC node is outside the program. Its replies are given by functions of the number
  of calls made so far, so that a call repeated by a retry may be answered differently;
  every call made is appended to a log.
\<close>

type_synonym signature = string

datatype rpc_call =
  CallGetBalance pubkey
  | CallSendTransaction pubkey pubkey int
  | CallConfirmTransaction signature
  | CallGetSignatureStatus signature

text \<open>
  \<open>confirmTransaction\<close> resolves, or rejects with a message that includes
  \<open>not confirmed\<close> (the timeout), or rejects with another error.
\<close>

datatype confirm_outcome = Confirmed | NotConfirmed | ConfirmRejected

text \<open>
  What \<open>verifyTransaction\<close> reads in the reply of \<open>getSignatureStatus\<close>: a status
  \<open>confirmed\<close> or \<open>finalized\<close> with \<open>err === null\<close>, the same with an error, or
  anything else (no value, or only \<open>processed\<close>).
\<close>

datatype signature_status = StatusConfirmedOk | StatusConfirmedErr | StatusOther

record rpc =
  getBalance_reply :: "nat \<Rightarrow> pubkey \<Rightarrow> js_error + int"
  sendTransaction_reply :: "nat \<Rightarrow> js_error + signature"
  confirmTransaction_reply :: "nat \<Rightarrow> confirm_outcome"
  getSignatureStatus_reply :: "nat \<Rightarrow> js_error + signature_status"

datatype verify_result = VerifiedSuccess | VerifiedFailed | VerifiedUnknown

text \<open>\<open>BN.div\<close> truncates towards zero, as BigInt division does.\<close>

definition bn_div :: "int \<Rightarrow> int \<Rightarrow> int" where
  "bn_div a b = bigint_div a b"

definition MIN_SOL_BUFFER_LAMPORTS_BN :: int where
  "MIN_SOL_BUFFER_LAMPORTS_BN = 5000"

definition PRIORITY_FEE_MICRO_LAMPORTS :: int where
  "PRIORITY_FEE_MICRO_LAMPORTS = 10000"

text \<open>\<open>verifyTransaction(signature, recipient, expectedIncrease, priorBalance)\<close>\<close>

definition verifyTransaction ::
  "rpc \<Rightarrow> rpc_call list \<Rightarrow> signature \<Rightarrow> pubkey \<Rightarrow> int \<Rightarrow> int \<Rightarrow> rpc_call list \<times> verify_result" where
  "verifyTransaction net calls sig recipient expectedIncrease priorBalance =
     (let calls1 = calls @ [CallGetSignatureStatus sig] in
      case getSignatureStatus_reply net (length calls) of
        Inl e \<Rightarrow> (calls1, VerifiedUnknown)
      | Inr StatusConfirmedOk \<Rightarrow> (calls1, VerifiedSuccess)
      | Inr StatusConfirmedErr \<Rightarrow> (calls1, VerifiedFailed)
      | Inr StatusOther \<Rightarrow>
          (let calls2 = calls1 @ [CallGetBalance recipient] in
           case getBalance_reply net (length calls1) recipient of
             Inl e \<Rightarrow> (calls2, VerifiedUnknown)
           | Inr currentBalance \<Rightarrow>
               let increase = currentBalance - priorBalance;
                   lowerBound = bn_div (expectedIncrease * 99) 100;
                   upperBound = bn_div (expectedIncrease * 101) 100
               in if increase \<ge> lowerBound \<and> increase \<le> upperBound
                  then (calls2, VerifiedSuccess) else (calls2, VerifiedUnknown)))"

text \<open>
  The retry loop of \<open>fundSingleWallet\<close> for one tranche; \<open>left\<close> counts the iterations
  that remain (\<open>maxRetries + 1\<close> at the start). The result is \<open>txSuccess\<close>. The relayer is
  \<open>undefined\<close> when the list of relayers is empty, and building the transaction then
  throws inside the \<open>try\<close>. Waiting and logging are left out.
\<close>

fun fund_attempts ::
  "rpc \<Rightarrow> pubkey option \<Rightarrow> pubkey \<Rightarrow> int \<Rightarrow> int \<Rightarrow> nat \<Rightarrow> rpc_call list \<Rightarrow> rpc_call list \<times> bool" where
  "fund_attempts net relayer recipient cappedPart priorBalance 0 calls = (calls, False)"
| "fund_attempts net relayer recipient cappedPart priorBalance (Suc left) calls =
     (case relayer of
        None \<Rightarrow> fund_attempts net relayer recipient cappedPart priorBalance left calls
      | Some r \<Rightarrow>
          (let calls1 = calls @ [CallSendTransaction r recipient cappedPart] in
           case sendTransaction_reply net (length calls) of
             Inl e \<Rightarrow> fund_attempts net relayer recipient cappedPart priorBalance left calls1
           | Inr sig \<Rightarrow>
               (let calls2 = calls1 @ [CallConfirmTransaction sig] in
                case confirmTransaction_reply net (length calls1) of
                  Confirmed \<Rightarrow> (calls2, True)
                | NotConfirmed \<Rightarrow>
                    (case verifyTransaction net calls2 sig recipient cappedPart priorBalance of
                       (calls3, verified) \<Rightarrow>
                         if verified = VerifiedSuccess then (calls3, True)
                         else fund_attempts net relayer recipient cappedPart priorBalance left calls3)
                | ConfirmRejected \<Rightarrow>
                    fund_attempts net relayer recipient cappedPart priorBalance left calls2)))"

text \<open>\<open>calculateFundingPart(remaining, remainingParts)\<close>; \<open>factor\<close> is the number
  \<open>Math.floor((0.6 + Math.random() * 0.8) * 1000)\<close>.\<close>

definition calculateFundingPart :: "int \<Rightarrow> int \<Rightarrow> int \<Rightarrow> int" where
  "calculateFundingPart factor remaining remainingParts =
     (let basePart = bn_div (bn_div (remaining * factor) 1000) remainingParts;
          partNum = max basePart MIN_SOL_BUFFER_LAMPORTS_BN
      in min partNum remaining)"

text \<open>The random numbers of one funding: the number of parts (1 to 4), and for each
  part the factor and the index of the relayer.\<close>

record funding_draws =
  parts_draw :: nat
  factor_draw :: "nat \<Rightarrow> int"
  relayer_draw :: "nat \<Rightarrow> nat"

definition nth_opt :: "'a list \<Rightarrow> nat \<Rightarrow> 'a option" where
  "nth_opt xs i = (if i < length xs then Some (xs ! i) else None)"

text \<open>The loop over the parts; \<open>k\<close> counts the parts that remain, so \<open>p = parts - k\<close>.\<close>

fun fund_parts ::
  "rpc \<Rightarrow> funding_draws \<Rightarrow> pubkey list \<Rightarrow> pubkey \<Rightarrow> int \<Rightarrow> int \<Rightarrow> nat \<Rightarrow> int \<Rightarrow> rpc_call list
     \<Rightarrow> rpc_call list \<times> int" where
  "fund_parts net draws relayers recipient balanceBN fundAmount 0 remaining calls = (calls, remaining)"
| "fund_parts net draws relayers recipient balanceBN fundAmount (Suc k) remaining calls =
     (if remaining > MIN_SOL_BUFFER_LAMPORTS_BN then
        let p = parts_draw draws - Suc k;
            cappedPart = calculateFundingPart (factor_draw draws p) remaining (int (parts_draw draws) - int p);
            relayer = nth_opt relayers (relayer_draw draws p);
            priorBalance = balanceBN + fundAmount - remaining
        in case fund_attempts net relayer recipient cappedPart priorBalance 3 calls of
             (calls1, txSuccess) \<Rightarrow>
               fund_parts net draws relayers recipient balanceBN fundAmount k
                 (if txSuccess then remaining - cappedPart else remaining) calls1
      else (calls, remaining))"

text \<open>A wallet of the roster: its public key and what \<open>Keypair.fromSecretKey\<close> makes of
  its private key (the public key of the key pair, or an exception).\<close>

record wallet =
  w_pubkey :: pubkey
  w_keypair :: "js_error + pubkey"

record wallet_manager =
  funded :: "pubkey set"
  fundingLocks :: "string set"
  relayerKeypairs :: "pubkey list"

definition lockKey :: "pubkey \<Rightarrow> string" where
  "lockKey pk = ''funding_'' @ pk"

text \<open>
  \<open>fundSingleWallet(wallet)\<close> is an \<open>async\<close> function: \<open>fundWalletsInParallel\<close>
  starts up to fifty calls at once, which run interleaved at their \<open>await\<close>s. It is
  modelled in three pieces: the guard and the \<open>add\<close> of the lock, which run without
  suspension when the call starts; the \<open>try\<close> block with its \<open>catch\<close>; the \<open>finally\<close>
  block. The pieces are put together by the steps of the section on concurrent calls.

  The first lines: \<open>None\<close> is the early return, otherwise the lock is added.
\<close>

definition acquire_lock :: "pubkey \<Rightarrow> wallet_manager \<Rightarrow> wallet_manager option" where
  "acquire_lock pk s =
     (if pk \<in> funded s \<or> lockKey pk \<in> fundingLocks s then None
      else Some (s\<lparr>fundingLocks := insert (lockKey pk) (fundingLocks s)\<rparr>))"

text \<open>The \<open>finally\<close> block.\<close>

definition release_lock :: "pubkey \<Rightarrow> wallet_manager \<Rightarrow> wallet_manager" where
  "release_lock pk s = s\<lparr>fundingLocks := fundingLocks s - {lockKey pk}\<rparr>"

text \<open>
  The ways out of the \<open>try\<close> block: the \<open>return\<close> for a wallet whose balance is at
  80 percent of the amount already; the end of the block after the loop over the
  tranches, with what remained unsent (the tranches may all have failed); an exception,
  which the \<open>catch\<close> logs. The first two have run \<open>this.funded.add(wallet.pubkey)\<close>.
\<close>

datatype try_exit = AlreadyFunded | TranchesAttempted int | Caught js_error

definition marks_funded :: "try_exit \<Rightarrow> bool" where
  "marks_funded x = (case x of Caught e \<Rightarrow> False | _ \<Rightarrow> True)"

text \<open>The \<open>try\<close> block with its \<open>catch\<close>, for the list of relayers of the manager.\<close>

definition fund_try ::
  "int \<Rightarrow> rpc \<Rightarrow> funding_draws \<Rightarrow> wallet \<Rightarrow> pubkey list \<Rightarrow> rpc_call list
     \<Rightarrow> try_exit \<times> rpc_call list" where
  "fund_try fundAmount net draws w relayers calls =
     (case w_keypair w of
        Inl e \<Rightarrow> (Caught e, calls)
      | Inr kp \<Rightarrow>
          (let calls1 = calls @ [CallGetBalance kp] in
           case getBalance_reply net (length calls) kp of
             Inl e \<Rightarrow> (Caught e, calls1)
           | Inr balanceBN \<Rightarrow>
               let threshold = bn_div (fundAmount * 8) 10 in
               if balanceBN \<ge> threshold
               then (AlreadyFunded, calls1)
               else
                 let remaining = fundAmount - balanceBN in
                 case fund_parts net draws relayers kp balanceBN fundAmount
                        (parts_draw draws) remaining calls1 of
                   (calls2, remaining') \<Rightarrow> (TranchesAttempted remaining', calls2)))"


text \<open>
  \<open>fundBurnerWallet(walletData)\<close>. First the loop that looks for a relayer holding the
  amount and the estimated fee; a balance query that fails is caught and the next
  candidate is tried.
\<close>

definition estimatedFee :: int where
  "estimatedFee = (PRIORITY_FEE_MICRO_LAMPORTS * 25000) div 1000000"

fun find_relayer ::
  "rpc \<Rightarrow> int \<Rightarrow> pubkey list \<Rightarrow> rpc_call list \<Rightarrow> rpc_call list \<times> (pubkey \<times> int) option" where
  "find_relayer net totalRequired [] calls = (calls, None)"
| "find_relayer net totalRequired (candidate # rest) calls =
     (let calls1 = calls @ [CallGetBalance candidate] in
      case getBalance_reply net (length calls) candidate of
        Inl e \<Rightarrow> find_relayer net totalRequired rest calls1
      | Inr candidateBalance \<Rightarrow>
          if candidateBalance \<ge> totalRequired then (calls1, Some (candidate, candidateBalance))
          else find_relayer net totalRequired rest calls1)"

text \<open>
  When no relayer holds enough, the first one is used if it has at least 0.01 SOL. The
  transfer is then sent and its confirmation awaited inside a \<open>try\<close> whose \<open>catch\<close> only
  logs; the function returns \<open>true\<close> after it, whatever \<open>confirmTransaction\<close> did.
\<close>

definition fundBurnerWallet ::
  "bwc_config \<Rightarrow> rpc \<Rightarrow> pubkey list \<Rightarrow> pubkey \<Rightarrow> rpc_call list \<Rightarrow> rpc_call list \<times> bool" where
  "fundBurnerWallet cfg net relayers burner calls =
     (case relayers of
        [] \<Rightarrow> (calls, False)
      | first # others \<Rightarrow>
          let requiredAmount = bwcBurnerFundAmount cfg;
              totalRequired = requiredAmount + estimatedFee
          in case find_relayer net totalRequired relayers calls of
               (calls1, found) \<Rightarrow>
                 (case (case found of
                          Some chosen \<Rightarrow> Inr (calls1, chosen)
                        | None \<Rightarrow>
                            (let calls2 = calls1 @ [CallGetBalance first] in
                             case getBalance_reply net (length calls1) first of
                               Inl e \<Rightarrow> Inl calls2
                             | Inr relayerBalance \<Rightarrow>
                                 if relayerBalance < totalRequired \<and>
                                    (relayerBalance \<le> 0 \<or> relayerBalance < 10000000)
                                 then Inl calls2
                                 else Inr (calls2, (first, relayerBalance)))) of
                    Inl calls3 \<Rightarrow> (calls3, False)
                  | Inr (calls3, (relayer, relayerBalance)) \<Rightarrow>
                      let fundAmountLamports =
                            (if relayerBalance < totalRequired then relayerBalance - estimatedFee
                             else requiredAmount)
                      in if relayerBalance < totalRequired \<and> fundAmountLamports \<le> 0
                         then (calls3, False)
                         else
                           (let calls4 = calls3 @ [CallSendTransaction relayer burner fundAmountLamports] in
                            case sendTransaction_reply net (length calls3) of
                              Inl e \<Rightarrow> (calls4, False)
                            | Inr sig \<Rightarrow>
                                let calls5 = calls4 @ [CallConfirmTransaction sig];
                                    outcome = confirmTransaction_reply net (length calls4)
                                in (calls5, True))))"

subsection \<open>Concurrent calls of \<open>fundSingleWallet\<close>\<close>

text \<open>
  \<open>fundWalletsInParallel\<close> starts a call per wallet of a batch and awaits them together.
  The calls run on one thread and are interleaved at their \<open>await\<close>s only. A call is
  \<open>NotStarted\<close>, then either returns at once (lock held, or wallet funded) or takes the
  lock and is \<open>InFlight\<close>, suspended at an \<open>await\<close> of the \<open>try\<close> block; between
  suspensions it may send a transfer to its wallet; it leaves through the \<open>finally\<close>
  block, having marked the wallet funded or not: \<open>Finish i marked\<close> is the exit of call
  \<open>i\<close> whose \<open>try\<close> block was left by \<open>x\<close> with \<open>marked = marks_funded x\<close>. A schedule is
  a list of such events; an event that is not enabled changes nothing.
\<close>

datatype task_phase = NotStarted | InFlight | Returned

record fund_sys =
  sys_manager :: wallet_manager
  sys_tasks :: "(pubkey \<times> task_phase) list"
  sys_transfers :: "(nat \<times> pubkey) list"

datatype fund_event = Start nat | Transfer nat | Finish nat bool

definition task_is :: "fund_sys \<Rightarrow> nat \<Rightarrow> task_phase \<Rightarrow> bool" where
  "task_is s i ph = (i < length (sys_tasks s) \<and> snd (sys_tasks s ! i) = ph)"

definition set_phase :: "nat \<Rightarrow> task_phase \<Rightarrow> fund_sys \<Rightarrow> fund_sys" where
  "set_phase i ph s = s\<lparr>sys_tasks := (sys_tasks s)[i := (fst (sys_tasks s ! i), ph)]\<rparr>"

fun fund_step :: "fund_event \<Rightarrow> fund_sys \<Rightarrow> fund_sys" where
  "fund_step (Start i) s =
     (if task_is s i NotStarted then
        (case acquire_lock (fst (sys_tasks s ! i)) (sys_manager s) of
           None \<Rightarrow> set_phase i Returned s
         | Some m \<Rightarrow> set_phase i InFlight (s\<lparr>sys_manager := m\<rparr>))
      else s)"
| "fund_step (Transfer i) s =
     (if task_is s i InFlight
      then s\<lparr>sys_transfers := sys_transfers s @ [(i, fst (sys_tasks s ! i))]\<rparr>
      else s)"
| "fund_step (Finish i marked) s =
     (if task_is s i InFlight then
        let pk = fst (sys_tasks s ! i);
            m = sys_manager s;
            m1 = (if marked then m\<lparr>funded := insert pk (funded m)\<rparr> else m)
        in set_phase i Returned (s\<lparr>sys_manager := release_lock pk m1\<rparr>)
      else s)"

definition fund_run :: "fund_event list \<Rightarrow> fund_sys \<Rightarrow> fund_sys" where
  "fund_run evs s = fold fund_step evs s"

text \<open>The start: the manager as constructed (no lock), with the wallets already known
  as funded, and one pending call per wallet of the batch.\<close>

definition fund_init :: "pubkey set \<Rightarrow> pubkey list \<Rightarrow> pubkey list \<Rightarrow> fund_sys" where
  "fund_init funded0 relayers batch =
     \<lparr>sys_manager = \<lparr>funded = funded0, fundingLocks = {}, relayerKeypairs = relayers\<rparr>,
      sys_tasks = map (\<lambda>pk. (pk, NotStarted)) batch,
      sys_transfers = []\<rparr>"

text \<open>The calls in flight for a wallet.\<close>

definition in_flight :: "fund_sys \<Rightarrow> pubkey \<Rightarrow> nat list" where
  "in_flight s pk =
     filter (\<lambda>i. sys_tasks s ! i = (pk, InFlight)) [0..<length (sys_tasks s)]"

section \<open>Rebalancer (src/wallet/WalletManager.js, class WalletRebalancer)\<close>

text \<open>
  The three amounts of the configuration are set by \<open>validate\<close> with \<open>validateSolAmount\<close>:
  without a variable of the environment the amount is the default, a number of SOL;
  with one it is a \<open>BN\<close>, the amount in lamports.
\<close>

datatype sol_amount = SolNumber rat | LamportsBN int

record rebalancing_config =
  cfg_enableRebalancing :: bool
  cfg_minWalletBalance :: sol_amount
  cfg_targetWalletBalance :: sol_amount
  cfg_dustThreshold :: sol_amount

text \<open>
  \<open>Math.floor(config.x * LAMPORTS_PER_SOL)\<close>: the product of doubles, where a \<open>BN\<close> is
  first converted to a number through its decimal string.
\<close>

definition LAMPORTS_PER_SOL :: rat where
  "LAMPORTS_PER_SOL = 1000000000"

definition to_lamports :: "sol_amount \<Rightarrow> int" where
  "to_lamports a =
     (case a of
        SolNumber x \<Rightarrow> \<lfloor>fl (x * LAMPORTS_PER_SOL)\<rfloor>
      | LamportsBN n \<Rightarrow> \<lfloor>fl (fl (of_int n) * LAMPORTS_PER_SOL)\<rfloor>)"

text \<open>The three amounts the constructor converts to lamports, and the switch.\<close>

record rb_config =
  enableRebalancing :: bool
  minWalletBalanceLamports :: int
  targetWalletBalanceLamports :: int
  dustThresholdLamports :: int

definition rb_constructor :: "rebalancing_config \<Rightarrow> rb_config" where
  "rb_constructor config =
     \<lparr>enableRebalancing = cfg_enableRebalancing config,
      minWalletBalanceLamports = to_lamports (cfg_minWalletBalance config),
      targetWalletBalanceLamports = to_lamports (cfg_targetWalletBalance config),
      dustThresholdLamports = to_lamports (cfg_dustThreshold config)\<rparr>"

text \<open>The configuration when no variable is set: 0.005, 0.05 and 0.001 SOL.\<close>

definition default_rebalancing :: rebalancing_config where
  "default_rebalancing =
     \<lparr>cfg_enableRebalancing = True,
      cfg_minWalletBalance = SolNumber (fl (5 / 1000)),
      cfg_targetWalletBalance = SolNumber (fl (5 / 100)),
      cfg_dustThreshold = SolNumber (fl (1 / 1000))\<rparr>"

text \<open>
  \<open>walletBalances\<close> is an array of objects \<open>{wallet, balance}\<close>; \<open>needsFunding\<close> and
  \<open>hasSurplus\<close> hold the same objects, and the pairing loop assigns to their \<open>balance\<close>
  fields. An object is identified by its index in \<open>walletBalances\<close>: the balances are
  a list updated by index, the two arrays are lists of indices.

  A transfer that was attempted, with the two balance fields as they were read for it
  and whether it was sent and confirmed (otherwise the exception is caught and logged).
\<close>

record p2p_transfer =
  pt_donor :: nat
  pt_needy :: nat
  pt_amount :: int
  pt_donor_balance :: int
  pt_needy_balance :: int
  pt_confirmed :: bool

record p2p_state =
  balances :: "int list"
  surplusIndex :: nat
  transfers :: "p2p_transfer list"

text \<open>
  The body of the loop \<open>for (const needy of needsFunding)\<close>; \<open>None\<close> is the \<open>break\<close>.
  \<open>sent donor needy amount\<close> tells whether that transfer is sent and confirmed.
\<close>

definition p2p_pair ::
  "rb_config \<Rightarrow> (nat \<Rightarrow> nat \<Rightarrow> int \<Rightarrow> bool) \<Rightarrow> pubkey list \<Rightarrow> nat list \<Rightarrow> nat \<Rightarrow> p2p_state
     \<Rightarrow> p2p_state option" where
  "p2p_pair cfg sent pubkeys hasSurplus needy st =
     (if surplusIndex st \<ge> length hasSurplus then None
      else
        let neededAmount = targetWalletBalanceLamports cfg - balances st ! needy;
            surplusProvider = hasSurplus ! surplusIndex st
        in if pubkeys ! surplusProvider = pubkeys ! needy then Some st
           else
             let availableSurplus = balances st ! surplusProvider - targetWalletBalanceLamports cfg;
                 attempt = \<lparr>pt_donor = surplusProvider, pt_needy = needy, pt_amount = neededAmount,
                            pt_donor_balance = balances st ! surplusProvider,
                            pt_needy_balance = balances st ! needy,
                            pt_confirmed = sent surplusProvider needy neededAmount\<rparr>;
                 st1 = (if availableSurplus > neededAmount then
                          (if sent surplusProvider needy neededAmount
                           then st\<lparr>balances := (balances st)
                                      [surplusProvider := balances st ! surplusProvider - neededAmount,
                                       needy := balances st ! needy + neededAmount],
                                   transfers := transfers st @ [attempt]\<rparr>
                           else st\<lparr>transfers := transfers st @ [attempt]\<rparr>)
                        else st)
             in Some (if balances st1 ! surplusProvider - targetWalletBalanceLamports cfg
                           < dustThresholdLamports cfg
                      then st1\<lparr>surplusIndex := surplusIndex st1 + 1\<rparr> else st1))"

fun p2p_loop ::
  "rb_config \<Rightarrow> (nat \<Rightarrow> nat \<Rightarrow> int \<Rightarrow> bool) \<Rightarrow> pubkey list \<Rightarrow> nat list \<Rightarrow> nat list \<Rightarrow> p2p_state
     \<Rightarrow> p2p_state" where
  "p2p_loop cfg sent pubkeys hasSurplus [] st = st"
| "p2p_loop cfg sent pubkeys hasSurplus (needy # rest) st =
     (case p2p_pair cfg sent pubkeys hasSurplus needy st of
        None \<Rightarrow> st
      | Some st' \<Rightarrow> p2p_loop cfg sent pubkeys hasSurplus rest st')"

text \<open>The two filtered and sorted arrays (\<open>Array.prototype.sort\<close> is stable).\<close>

definition needsFunding :: "rb_config \<Rightarrow> int list \<Rightarrow> nat list" where
  "needsFunding cfg bals =
     sort_key (\<lambda>i. bals ! i)
       (filter (\<lambda>i. bals ! i < minWalletBalanceLamports cfg) [0..<length bals])"

definition hasSurplus :: "rb_config \<Rightarrow> int list \<Rightarrow> nat list" where
  "hasSurplus cfg bals =
     sort_key (\<lambda>i. - (bals ! i))
       (filter (\<lambda>i. bals ! i > bn_div (targetWalletBalanceLamports cfg * 3) 2) [0..<length bals])"

text \<open>The block \<open>P2P Internal Funding\<close>, from the balances read at the start.\<close>

definition p2p_funding ::
  "rb_config \<Rightarrow> (nat \<Rightarrow> nat \<Rightarrow> int \<Rightarrow> bool) \<Rightarrow> pubkey list \<Rightarrow> int list \<Rightarrow> p2p_state" where
  "p2p_funding cfg sent pubkeys bals =
     (let st = \<lparr>balances = bals, surplusIndex = 0, transfers = []\<rparr> in
      if needsFunding cfg bals \<noteq> [] \<and> hasSurplus cfg bals \<noteq> []
      then p2p_loop cfg sent pubkeys (hasSurplus cfg bals) (needsFunding cfg bals) st
      else st)"

text \<open>
  The percentage \<open>Math.floor(randomPct * 100)\<close> with
  \<open>randomPct = 0.90 + Math.random() * 0.08\<close>, computed in doubles from the number \<open>r\<close>
  that \<open>Math.random()\<close> returned, a double with \<open>0 \<le> r < 1\<close>.
\<close>

definition sink_pct :: "rat \<Rightarrow> int" where
  "sink_pct r =
     (let randomPct = fl (fl (9 / 10) + fl (r * fl (8 / 100)))
      in \<lfloor>fl (randomPct * 100)\<rfloor>)"

text \<open>
  \<open>consolidateSurplusToSink(surplusWallets)\<close>, over the pairs of index and balance.
  \<open>random w\<close> is the number \<open>Math.random()\<close> returns when the transfer of wallet \<open>w\<close> is
  prepared; \<open>sunk w amount\<close> tells whether the transfer to the sink is sent and
  confirmed.
\<close>

record sink_transfer =
  sk_wallet :: nat
  sk_amount :: int
  sk_confirmed :: bool

fun consolidateSurplusToSink ::
  "rb_config \<Rightarrow> (nat \<Rightarrow> rat) \<Rightarrow> (nat \<Rightarrow> int \<Rightarrow> bool) \<Rightarrow> (nat \<times> int) list \<Rightarrow> sink_transfer list" where
  "consolidateSurplusToSink cfg random sunk [] = []"
| "consolidateSurplusToSink cfg random sunk ((w, balance) # rest) =
     (let surplus = balance - targetWalletBalanceLamports cfg in
      if surplus > dustThresholdLamports cfg then
        let transferAmount = bn_div (surplus * sink_pct (random w)) 100 in
        if transferAmount < dustThresholdLamports cfg
        then consolidateSurplusToSink cfg random sunk rest
        else \<lparr>sk_wallet = w, sk_amount = transferAmount, sk_confirmed = sunk w transferAmount\<rparr>
               # consolidateSurplusToSink cfg random sunk rest
      else consolidateSurplusToSink cfg random sunk rest)"

text \<open>The balances read at the start; a query that fails rejects the whole call.\<close>

fun snapshot :: "(pubkey \<Rightarrow> js_error + int) \<Rightarrow> pubkey list \<Rightarrow> js_error + int list" where
  "snapshot getBalance [] = Inr []"
| "snapshot getBalance (w # ws) =
     (case getBalance w of
        Inl e \<Rightarrow> Inl e
      | Inr b \<Rightarrow> (case snapshot getBalance ws of Inl e \<Rightarrow> Inl e | Inr bs \<Rightarrow> Inr (b # bs)))"

text \<open>The wallets handed to \<open>consolidateSurplusToSink\<close>: those of \<open>hasSurplus\<close> whose
  balance field is above 11/10 of the target after the pairing.\<close>

definition remainingSurplus :: "rb_config \<Rightarrow> nat list \<Rightarrow> int list \<Rightarrow> (nat \<times> int) list" where
  "remainingSurplus cfg surplusList bals =
     map (\<lambda>i. (i, bals ! i))
       (filter (\<lambda>i. bals ! i > bn_div (targetWalletBalanceLamports cfg * 11) 10) surplusList)"

text \<open>
  \<open>rebalanceWallets()\<close>: \<open>relayers\<close> is \<open>walletManager.relayerKeypairs\<close>, \<open>sinkKeypair\<close>
  the sink, \<open>activeWallets\<close> the public keys of the active batch, \<open>random\<close> the numbers
  drawn for the transfers to the sink. The result lists the transfers attempted between
  wallets and to the sink.
\<close>

definition rebalanceWallets ::
  "rb_config \<Rightarrow> (pubkey \<Rightarrow> js_error + int) \<Rightarrow> (nat \<Rightarrow> nat \<Rightarrow> int \<Rightarrow> bool) \<Rightarrow> (nat \<Rightarrow> rat)
     \<Rightarrow> (nat \<Rightarrow> int \<Rightarrow> bool) \<Rightarrow> pubkey list \<Rightarrow> pubkey option \<Rightarrow> pubkey list
     \<Rightarrow> js_error + (p2p_transfer list \<times> sink_transfer list)" where
  "rebalanceWallets cfg getBalance sent random sunk relayers sinkKeypair activeWallets =
     (if \<not> enableRebalancing cfg \<or> length relayers = 0 then Inr ([], [])
      else if length activeWallets < 2 then Inr ([], [])
      else
        case snapshot getBalance activeWallets of
          Inl e \<Rightarrow> Inl e
        | Inr bals \<Rightarrow>
            let st = p2p_funding cfg sent activeWallets bals;
                remaining = remainingSurplus cfg (hasSurplus cfg bals) (balances st)
            in if remaining \<noteq> [] \<and> sinkKeypair \<noteq> None
               then Inr (transfers st, consolidateSurplusToSink cfg random sunk remaining)
               else Inr (transfers st, []))"


section \<open>Invariants and example states\<close>

text \<open>A breaker whose baseline is 1000000 lamports, four checks after the start.\<close>

definition cb_at4 :: circuit_breaker where
  "cb_at4 = \<lparr>consecutiveFailures = 0, recentTrades = [], initialSinkBalance = 1000000, checkCounter = 4\<rparr>"

text \<open>The configuration with \<open>EMERGENCY_STOP_LOSS_PCT=2.8\<close>, the other fields at their
  defaults: the threshold is \<open>2.8 / 100\<close> in doubles.\<close>

definition cfg_stop28 :: cb_config where
  "cfg_stop28 = \<lparr>enableCircuitBreaker = True, maxConsecutiveFailures = 10, failureRateWindow = 10,
                 maxFailureRate = 50, emergencyStopLoss = fl (fl (28 / 10) / 100)\<rparr>"

text \<open>The invariant of claim C4, over the entries of \<open>burnerWallets\<close>: a burner whose
  count has reached the cap is pending disposal.\<close>

definition cap_inv :: "bwc_config \<Rightarrow> burner_manager \<Rightarrow> bool" where
  "cap_inv cfg m =
     list_all (\<lambda>e. get_or_0 (burnerTradeCount m) (fst e) \<ge> bwcBurnerLifetimeTxs cfg
                      \<longrightarrow> fst e \<in> pendingDisposal m)
       (burnerWallets m)"

text \<open>A key that no availability query can return: pending, or not tracked.\<close>

definition excluded :: "pubkey \<Rightarrow> burner_manager \<Rightarrow> bool" where
  "excluded pk m = (pk \<in> pendingDisposal m \<or> \<not> map_has pk (burnerWallets m))"

text \<open>The calls \<open>markBurnerUsed(pubkey, txCount)\<close> of a run, each with its time.\<close>

definition mark_all :: "bwc_config \<Rightarrow> (int \<times> pubkey \<times> int) list \<Rightarrow> burner_manager \<Rightarrow> burner_manager" where
  "mark_all cfg calls m = fold (\<lambda>(now, pk, txCount). markBurnerUsed cfg now pk txCount) calls m"

text \<open>The transactions reported for \<open>pk\<close> by these calls.\<close>

definition used_by :: "pubkey \<Rightarrow> (int \<times> pubkey \<times> int) list \<Rightarrow> int" where
  "used_by pk calls = sum_list (map (\<lambda>(now, k, txCount). if k = pk then txCount else 0) calls)"

text \<open>Whether a run creates a burner under the key \<open>pk\<close>.\<close>

definition creates :: "pubkey \<Rightarrow> bm_op list \<Rightarrow> bool" where
  "creates pk ops = list_ex (\<lambda>op. case op of Create k now ok \<Rightarrow> k = pk | _ \<Rightarrow> False) ops"

text \<open>A manager with two usable burners \<open>A\<close> and \<open>B\<close>, created in this order, and a
  configuration that returns as many burners as are asked for.\<close>

definition cfg_bwc :: bwc_config where
  "cfg_bwc = \<lparr>bwcEnabled = True, bwcMode = ModeHybrid, bwcBurnerLifetimeTxs = 5,
               enableBurnerSeasoning = False, burnerSeasoningMinTxs = 1,
               bwcBurnerRatio = 1, bwcEmergencyBurnerRatio = 1, bwcBurnerFundAmount = 20000000\<rparr>"

definition two_burners :: burner_manager where
  "two_burners = fold (bm_apply cfg_bwc) [Create ''A'' 0 True, Create ''B'' 0 True] bm_constructor"

text \<open>Burner \<open>A\<close> of the example, scheduled for disposal.\<close>

definition a_pending :: burner_manager where
  "a_pending = scheduleBurnerDisposal ''A'' two_burners"

text \<open>A node on which every balance is 1 SOL, every transaction is accepted under the
  signature \<open>sig\<close>, no confirmation arrives in time and the status query fails.\<close>

definition net_timeout :: rpc where
  "net_timeout =
     \<lparr>getBalance_reply = (\<lambda>n pk. Inr 1000000000),
      sendTransaction_reply = (\<lambda>n. Inr ''sig''),
      confirmTransaction_reply = (\<lambda>n. NotConfirmed),
      getSignatureStatus_reply = (\<lambda>n. Inl RpcError)\<rparr>"

text \<open>One part, the whole remainder, from the first relayer.\<close>

definition one_part :: funding_draws where
  "one_part = \<lparr>parts_draw = 1, factor_draw = (\<lambda>p. 1000), relayer_draw = (\<lambda>p. 0)\<rparr>"

definition wallet_W :: wallet where
  "wallet_W = \<lparr>w_pubkey = ''W'', w_keypair = Inr ''W''\<rparr>"

text \<open>A node on which every balance is 0 and every transaction is refused.\<close>

definition net_refusing :: rpc where
  "net_refusing =
     \<lparr>getBalance_reply = (\<lambda>n pk. Inr 0),
      sendTransaction_reply = (\<lambda>n. Inl RpcError),
      confirmTransaction_reply = (\<lambda>n. ConfirmRejected),
      getSignatureStatus_reply = (\<lambda>n. Inl RpcError)\<rparr>"

text \<open>A wallet whose private key is refused: the call leaves through the \<open>catch\<close>.\<close>

definition wallet_bad :: wallet where
  "wallet_bad = \<lparr>w_pubkey = ''W'', w_keypair = Inl InvalidSecretKey\<rparr>"

text \<open>Two passes that both reach wallet \<open>W\<close>, and a call for wallet \<open>V\<close>; the
  first call for \<open>W\<close> has started.\<close>

definition two_passes :: fund_sys where
  "two_passes = fund_init {} [''R''] [''W'', ''W'', ''V'']"

definition first_started :: fund_sys where
  "first_started = fund_run [Start 0] two_passes"

text \<open>The call for \<open>V\<close> has started as well, and the first call for \<open>W\<close> has returned.\<close>

definition first_returned :: fund_sys where
  "first_returned = fund_run [Start 0, Start 2, Finish 0 True] two_passes"

text \<open>The invariant of the lock: at most one call in flight per wallet, and a lock is
  held exactly when a call is in flight for its wallet.\<close>

definition lock_inv :: "fund_sys \<Rightarrow> bool" where
  "lock_inv s \<longleftrightarrow>
     (\<forall>i j pk. i < length (sys_tasks s) \<and> j < length (sys_tasks s)
         \<and> sys_tasks s ! i = (pk, InFlight) \<and> sys_tasks s ! j = (pk, InFlight) \<longrightarrow> i = j)
     \<and> (\<forall>pk. lockKey pk \<in> fundingLocks (sys_manager s)
           \<longleftrightarrow> (\<exists>i < length (sys_tasks s). sys_tasks s ! i = (pk, InFlight)))
     \<and> (\<forall>k \<in> fundingLocks (sys_manager s). \<exists>pk. k = lockKey pk)"

text \<open>The rebalancer of the default configuration: floor 0.005 SOL, target 0.05 SOL,
  dust 0.001 SOL.\<close>

definition rb_default :: rb_config where
  "rb_default = rb_constructor default_rebalancing"

text \<open>What claim C5 says of a transfer between wallets, with the balances read for it:
  the amount is the deficit of the needy wallet, the surplus of the donor is larger,
  so the amount is the lesser of the two, and the two wallets have different keys.\<close>

definition p2p_ok :: "rb_config \<Rightarrow> pubkey list \<Rightarrow> p2p_transfer \<Rightarrow> bool" where
  "p2p_ok cfg pubkeys t \<longleftrightarrow>
     pt_amount t = targetWalletBalanceLamports cfg - pt_needy_balance t
     \<and> pt_amount t < pt_donor_balance t - targetWalletBalanceLamports cfg
     \<and> pt_amount t = min (targetWalletBalanceLamports cfg - pt_needy_balance t)
                         (pt_donor_balance t - targetWalletBalanceLamports cfg)
     \<and> pubkeys ! pt_donor t \<noteq> pubkeys ! pt_needy t"

text \<open>The state in which the pairing loop starts on the balances \<open>bals\<close>.\<close>

definition p2p_start :: "int list \<Rightarrow> p2p_state" where
  "p2p_start bals = \<lparr>balances = bals, surplusIndex = 0, transfers = []\<rparr>"

text \<open>A node that reports 0.065 SOL for wallet \<open>A\<close> and 0.05 SOL for any other.\<close>

definition balances_A65 :: "pubkey \<Rightarrow> js_error + int" where
  "balances_A65 pk = Inr (if pk = ''A'' then 65000000 else 50000000)"

text \<open>The same with 0.085 SOL for \<open>A\<close>.\<close>

definition balances_A85 :: "pubkey \<Rightarrow> js_error + int" where
  "balances_A85 pk = Inr (if pk = ''A'' then 85000000 else 50000000)"

section \<open>Properties of the rounding\<close>

lemma round_half_even_of_int [simp]: "round_half_even (of_int n) = n"
  by (simp add: round_half_even_def)

lemma round_half_even_bounds:
  "\<lfloor>x\<rfloor> \<le> round_half_even x" "round_half_even x \<le> \<lfloor>x\<rfloor> + 1"
  by (simp_all add: round_half_even_def Let_def)

lemma round_half_even_mono:
  assumes "x \<le> y"
  shows "round_half_even x \<le> round_half_even y"
proof (cases "\<lfloor>x\<rfloor> = \<lfloor>y\<rfloor>")
  case True
  with assms show ?thesis
    by (auto simp: round_half_even_def Let_def)
next
  case False
  with assms have "\<lfloor>x\<rfloor> + 1 \<le> \<lfloor>y\<rfloor>"
    using floor_mono [OF assms] by linarith
  with round_half_even_bounds(2) [of x] round_half_even_bounds(1) [of y] show ?thesis
    by linarith
qed

lemma binade_bounds:
  assumes "0 < x"
  shows "2 powi binade x \<le> x" "x < 2 powi (binade x + 1)"
proof -
  obtain p q where pq: "quotient_of x = (p, q)"
    by (cases "quotient_of x")
  have q: "0 < q"
    using pq by (rule quotient_of_denom_pos)
  have x: "x = of_int p / of_int q"
    using pq by (rule quotient_of_div)
  with assms q have p: "0 < p"
    by (simp add: zero_less_divide_iff)
  define d where "d = bitlen p - bitlen q"
  have bp: "1 \<le> bitlen p" "1 \<le> bitlen q"
    using p q by (simp_all add: bitlen_alt_def)
  from bitlen_bounds [OF p] have "2 ^ nat (bitlen p - 1) \<le> p" "p < 2 ^ nat (bitlen p)"
    by simp_all
  then have "(of_int (2 ^ nat (bitlen p - 1)) :: rat) \<le> of_int p"
    "(of_int p :: rat) < of_int (2 ^ nat (bitlen p))"
    by (simp_all only: of_int_le_iff of_int_less_iff)
  then have p1: "(2::rat) powi (bitlen p - 1) \<le> of_int p" and p2: "of_int p < (2::rat) powi bitlen p"
    using bp by (simp_all add: power_int_def)
  from bitlen_bounds [OF q] have "2 ^ nat (bitlen q - 1) \<le> q" "q < 2 ^ nat (bitlen q)"
    by simp_all
  then have "(of_int (2 ^ nat (bitlen q - 1)) :: rat) \<le> of_int q"
    "(of_int q :: rat) < of_int (2 ^ nat (bitlen q))"
    by (simp_all only: of_int_le_iff of_int_less_iff)
  then have q1: "(2::rat) powi (bitlen q - 1) \<le> of_int q" and q2: "of_int q < (2::rat) powi bitlen q"
    using bp by (simp_all add: power_int_def)
  have qpos: "(0::rat) < of_int q"
    using q by simp
  have "(2::rat) powi (d - 1) * of_int q < 2 powi (d - 1) * 2 powi bitlen q"
    using q2 by (simp add: mult_strict_left_mono)
  also have "\<dots> = 2 powi (bitlen p - 1)"
    unfolding d_def by (simp add: power_int_add [symmetric])
  also have "\<dots> \<le> of_int p"
    by (rule p1)
  finally have low: "(2::rat) powi (d - 1) < x"
    unfolding x using qpos by (simp add: pos_less_divide_eq)
  have "of_int p < (2::rat) powi bitlen p"
    by (rule p2)
  also have "\<dots> = 2 powi (d + 1) * 2 powi (bitlen q - 1)"
    unfolding d_def by (simp add: power_int_add [symmetric])
  also have "\<dots> \<le> 2 powi (d + 1) * of_int q"
    using q1 by (simp add: mult_left_mono)
  finally have up: "x < (2::rat) powi (d + 1)"
    unfolding x using qpos by (simp add: pos_divide_less_eq)
  have b: "binade x = (if 2 powi d \<le> x then d else d - 1)"
    by (simp add: binade_def pq d_def Let_def)
  show "2 powi binade x \<le> x"
    using low by (simp add: b)
  show "x < 2 powi (binade x + 1)"
    using up by (simp add: b not_le)
qed

lemma powi2_less_D: "(2::rat) powi a < 2 powi b \<Longrightarrow> a < b"
  using power_int_increasing [of b a "2::rat"] by (cases "a < b") auto

lemma binade_unique:
  assumes "0 < x" "2 powi e \<le> x" "x < 2 powi (e + 1)"
  shows "binade x = e"
proof -
  note b = binade_bounds [OF assms(1)]
  have "(2::rat) powi e < 2 powi (binade x + 1)"
    using assms(2) b(2) by simp
  then have "e < binade x + 1"
    by (rule powi2_less_D)
  moreover have "(2::rat) powi binade x < 2 powi (e + 1)"
    using assms(3) b(1) by simp
  then have "binade x < e + 1"
    by (rule powi2_less_D)
  ultimately show ?thesis
    by simp
qed

lemma binade_mono:
  assumes "0 < x" "x \<le> y"
  shows "binade x \<le> binade y"
proof -
  have "(2::rat) powi binade x \<le> x"
    using binade_bounds(1) [OF assms(1)] .
  also have "x \<le> y" by fact
  also have "y < 2 powi (binade y + 1)"
    using binade_bounds(2) [of y] assms by simp
  finally have "binade x < binade y + 1"
    by (rule powi2_less_D)
  then show ?thesis by simp
qed

text \<open>The significand of a positive number lies between \<open>2^52\<close> and \<open>2^53\<close>.\<close>

lemma significand_bounds:
  assumes "0 < x"
  shows "2 ^ 52 \<le> round_half_even (x / 2 powi (binade x - 52))"
    and "round_half_even (x / 2 powi (binade x - 52)) \<le> 2 ^ 53"
proof -
  define u :: rat where "u = 2 powi (binade x - 52)"
  have u: "0 < u"
    unfolding u_def by simp
  have "2 powi binade x = u * 2 ^ 52" "2 powi (binade x + 1) = u * 2 ^ 53"
    unfolding u_def by (simp_all add: power_int_diff power_int_add)
  with binade_bounds [OF assms] have "u * 2 ^ 52 \<le> x" "x < u * 2 ^ 53"
    by simp_all
  with u have "of_int (2 ^ 52) \<le> x / u" "x / u \<le> of_int (2 ^ 53)"
    by (simp_all add: pos_le_divide_eq pos_divide_le_eq mult.commute)
  from round_half_even_mono [OF this(1)] round_half_even_mono [OF this(2)]
  show "2 ^ 52 \<le> round_half_even (x / 2 powi (binade x - 52))"
    and "round_half_even (x / 2 powi (binade x - 52)) \<le> 2 ^ 53"
    unfolding u_def by (simp_all only: round_half_even_of_int)
qed

lemma fl_pos_eq:
  "0 < x \<Longrightarrow> fl x = of_int (round_half_even (x / 2 powi (binade x - 52))) * 2 powi (binade x - 52)"
  by (simp add: fl_def Let_def)

lemma fl_nonneg:
  assumes "0 \<le> x"
  shows "0 \<le> fl x"
proof (cases "x = 0")
  case True
  then show ?thesis by (simp add: fl_def)
next
  case False
  with assms have x: "0 < x" by simp
  have "(0::int) \<le> 2 ^ 52"
    by simp
  also note significand_bounds(1) [OF x]
  finally have "0 \<le> round_half_even (x / 2 powi (binade x - 52))" .
  then show ?thesis
    by (simp add: fl_pos_eq [OF x])
qed

lemma fl_range:
  assumes "0 < x"
  shows "2 powi binade x \<le> fl x" "fl x \<le> 2 powi (binade x + 1)"
proof -
  define u :: rat where "u = 2 powi (binade x - 52)"
  define m where "m = round_half_even (x / u)"
  have u: "0 < u"
    unfolding u_def by simp
  have pw: "2 powi binade x = 2 ^ 52 * u" "2 powi (binade x + 1) = 2 ^ 53 * u"
    unfolding u_def by (simp_all add: power_int_diff power_int_add)
  have m: "2 ^ 52 \<le> m" "m \<le> 2 ^ 53"
    using significand_bounds [OF assms] unfolding m_def u_def by simp_all
  then have "(of_int (2 ^ 52) :: rat) \<le> of_int m" "(of_int m :: rat) \<le> of_int (2 ^ 53)"
    by (simp_all only: of_int_le_iff)
  then have "2 ^ 52 * u \<le> of_int m * u" "of_int m * u \<le> 2 ^ 53 * u"
    using u by (simp_all add: mult_right_mono)
  then show "2 powi binade x \<le> fl x" "fl x \<le> 2 powi (binade x + 1)"
    unfolding pw fl_pos_eq [OF assms] m_def u_def by simp_all
qed

text \<open>Rounding is monotone.\<close>

lemma fl_mono:
  assumes "0 \<le> x" "x \<le> y"
  shows "fl x \<le> fl y"
proof (cases "x = 0")
  case True
  with assms fl_nonneg [of y] show ?thesis
    by (simp add: fl_def)
next
  case False
  with assms have x: "0 < x" and y: "0 < y"
    by simp_all
  show ?thesis
  proof (cases "binade x = binade y")
    case True
    define u :: rat where "u = 2 powi (binade y - 52)"
    have u: "0 < u"
      unfolding u_def by simp
    have "x / u \<le> y / u"
      using assms(2) u by (simp add: divide_right_mono)
    then have "round_half_even (x / u) \<le> round_half_even (y / u)"
      by (rule round_half_even_mono)
    then have "(of_int (round_half_even (x / u)) :: rat) * u \<le> of_int (round_half_even (y / u)) * u"
      using u by (simp add: mult_right_mono)
    then show ?thesis
      unfolding fl_pos_eq [OF x] fl_pos_eq [OF y] True u_def .
  next
    case False
    with binade_mono [OF x assms(2)] have "binade x + 1 \<le> binade y"
      by simp
    then have "(2::rat) powi (binade x + 1) \<le> 2 powi binade y"
      by (simp add: power_int_increasing)
    with fl_range(2) [OF x] fl_range(1) [OF y] show ?thesis
      by linarith
  qed
qed

section \<open>Properties of the circuit breaker\<close>

lemma not_tripped_simps [simp]: "\<not> tripped not_tripped" "reason not_tripped = NoReason"
  by (simp_all add: not_tripped_def)

lemma checkConsecutiveFailures_tripped:
  "tripped (checkConsecutiveFailures cfg s) = consecutive_condition cfg s"
  by (simp add: checkConsecutiveFailures_def consecutive_condition_def)

lemma checkFailureRate_tripped:
  "tripped (checkFailureRate cfg s) = rate_condition cfg s"
  by (auto simp: checkFailureRate_def rate_condition_def Let_def)

lemma checkEmergencyStopLoss_trips:
  "trips (checkEmergencyStopLoss cfg gb sink s) = drawdown_condition cfg gb sink s"
  by (auto simp: checkEmergencyStopLoss_def drawdown_condition_def trips_def Let_def
           split: option.splits sum.splits)

lemma checkEmergencyStopLoss_quiet:
  "checkEmergencyStopLoss cfg gb sink s = (s', Inr r) \<Longrightarrow> \<not> tripped r \<Longrightarrow> r = not_tripped"
  by (auto simp: checkEmergencyStopLoss_def Let_def split: option.splits sum.splits if_splits)

text \<open>The loop over the three checks, unrolled.\<close>

lemma checkCircuitBreakers_unfold:
  "checkCircuitBreakers cfg gb sink s =
     (if \<not> enableCircuitBreaker cfg then (s, Inr not_tripped)
      else if consecutive_condition cfg s then (s, Inr (checkConsecutiveFailures cfg s))
      else if rate_condition cfg s then (s, Inr (checkFailureRate cfg s))
      else checkEmergencyStopLoss cfg gb sink s)"
  apply (simp add: checkCircuitBreakers_def checkConsecutiveFailures_tripped checkFailureRate_tripped)
  apply (auto split: prod.splits sum.splits dest: checkEmergencyStopLoss_quiet)
  done

lemma recordTradeResult_streak:
  "enableCircuitBreaker cfg \<Longrightarrow>
   consecutiveFailures (recordTradeResult cfg b s) = (if b then 0 else consecutiveFailures s + 1)"
  by (simp add: recordTradeResult_def Let_def)

lemma record_all_snoc:
  "record_all cfg (outcomes @ [b]) s = recordTradeResult cfg b (record_all cfg outcomes s)"
  by (simp add: record_all_def)

text \<open>The streak after a run of outcomes: the failures since the last success.\<close>

lemma record_all_streak:
  "enableCircuitBreaker cfg \<Longrightarrow>
   consecutiveFailures (record_all cfg outcomes s) =
     (if \<forall>b \<in> set outcomes. \<not> b then consecutiveFailures s + length outcomes
      else length (takeWhile (\<lambda>b. \<not> b) (rev outcomes)))"
proof (induction outcomes rule: rev_induct)
  case Nil
  then show ?case by (simp add: record_all_def)
next
  case (snoc b outcomes)
  then show ?case
    by (auto simp: record_all_snoc recordTradeResult_streak)
qed

lemma record_all_streak_fresh:
  assumes "enableCircuitBreaker cfg"
  shows "consecutiveFailures (record_all cfg outcomes cb_constructor)
           = length (takeWhile (\<lambda>b. \<not> b) (rev outcomes))"
proof (cases "\<forall>b \<in> set outcomes. \<not> b")
  case True
  then have "\<forall>b \<in> set (rev outcomes). \<not> b"
    by simp
  then have whole: "takeWhile (\<lambda>b. \<not> b) (rev outcomes) = rev outcomes"
    by (rule takeWhile_eq_all_conv [THEN iffD2])
  have "consecutiveFailures (record_all cfg outcomes cb_constructor)
          = consecutiveFailures cb_constructor + length outcomes"
    using record_all_streak [OF assms, of outcomes cb_constructor] unfolding if_P [OF True] .
  then show ?thesis
    unfolding whole by (simp add: cb_constructor_def)
next
  case False
  show ?thesis
    using record_all_streak [OF assms, of outcomes cb_constructor] unfolding if_not_P [OF False] .
qed

lemma stop_loss_counter:
  "checkCounter (fst (checkEmergencyStopLoss cfg gb sink s)) = checkCounter s + 1"
  by (auto simp: checkEmergencyStopLoss_def Let_def split: option.splits sum.splits)

lemma stop_loss_baseline:
  "initialSinkBalance (fst (checkEmergencyStopLoss cfg gb sink s)) = initialSinkBalance s"
  by (auto simp: checkEmergencyStopLoss_def Let_def split: option.splits sum.splits)

lemma stop_loss_calls_counter:
  "checkCounter (stop_loss_calls cfg sink replies s) = checkCounter s + length replies"
  unfolding stop_loss_calls_def
  by (induction replies arbitrary: s) (simp_all add: stop_loss_counter)

lemma stop_loss_skipped:
  "(checkCounter s + 1) mod SINK_BALANCE_CHECK_INTERVAL \<noteq> 0 \<Longrightarrow>
   checkEmergencyStopLoss cfg gb sink s = (s\<lparr>checkCounter := checkCounter s + 1\<rparr>, Inr not_tripped)"
  by (auto simp: checkEmergencyStopLoss_def Let_def split: option.splits sum.splits)

lemma stop_loss_evaluated:
  assumes "sink = Some k" "gb k = Inr cur" "initialSinkBalance s > 0"
    "(checkCounter s + 1) mod SINK_BALANCE_CHECK_INTERVAL = 0"
  shows "trips (checkEmergencyStopLoss cfg gb sink s) \<longleftrightarrow>
     fl (fl (of_int (bigint_div ((initialSinkBalance s - cur) * 10000) (initialSinkBalance s))) / 10000)
       > emergencyStopLoss cfg"
  using assms
  by (auto simp: checkEmergencyStopLoss_def Let_def trips_def
           split: option.splits sum.splits)

lemma baseline_record: "initialSinkBalance (recordTradeResult cfg b s) = initialSinkBalance s"
  by (simp add: recordTradeResult_def Let_def)

lemma baseline_check:
  "initialSinkBalance (fst (checkCircuitBreakers cfg gb sink s)) = initialSinkBalance s"
  by (simp add: checkCircuitBreakers_unfold stop_loss_baseline)

text \<open>
  Claim C1, as the code has it. With the breaker enabled, a call of
  \<open>checkCircuitBreakers\<close> trips if and only if one of the three conditions holds. The
  conditions are taken in the order consecutive failures, failure rate, drawdown: the
  result is that of the first one that holds, and when one of the first two holds the
  state is returned unchanged, so the drawdown check has not been called. A disabled
  breaker records nothing and never trips. A recorded success sets the streak to zero,
  and the streak of a fresh breaker is the number of failures since the last success:
  with \<open>maxConsecutiveFailures = 3\<close> the first condition holds as soon as three failures
  in a row are recorded, and after a success only when three more are.
\<close>

theorem circuit_breaker_precedence:
  "(enableCircuitBreaker cfg \<longrightarrow>
      (trips (checkCircuitBreakers cfg gb sink s) \<longleftrightarrow>
         consecutive_condition cfg s \<or> rate_condition cfg s \<or> drawdown_condition cfg gb sink s))
   \<and> (\<not> enableCircuitBreaker cfg \<longrightarrow>
        checkCircuitBreakers cfg gb sink s = (s, Inr not_tripped) \<and> recordTradeResult cfg b s = s)
   \<and> (enableCircuitBreaker cfg \<and> consecutive_condition cfg s \<longrightarrow>
        checkCircuitBreakers cfg gb sink s =
          (s, Inr \<lparr>tripped = True, reason = ConsecutiveFailuresReason (consecutiveFailures s)\<rparr>))
   \<and> (enableCircuitBreaker cfg \<and> \<not> consecutive_condition cfg s \<and> rate_condition cfg s \<longrightarrow>
        checkCircuitBreakers cfg gb sink s =
          (s, Inr \<lparr>tripped = True,
                   reason = FailureRateReason (length (filter (\<lambda>r. \<not> r) (recentTrades s)))
                              (length (recentTrades s))\<rparr>))
   \<and> (enableCircuitBreaker cfg \<and> \<not> consecutive_condition cfg s \<and> \<not> rate_condition cfg s \<longrightarrow>
        checkCircuitBreakers cfg gb sink s = checkEmergencyStopLoss cfg gb sink s)
   \<and> (enableCircuitBreaker cfg \<longrightarrow> consecutiveFailures (recordTradeResult cfg True s) = 0)
   \<and> (enableCircuitBreaker cfg \<longrightarrow>
        consecutiveFailures (record_all cfg outcomes cb_constructor)
          = length (takeWhile (\<lambda>b. \<not> b) (rev outcomes)))"
proof -
  have iff: "enableCircuitBreaker cfg \<Longrightarrow>
      trips (checkCircuitBreakers cfg gb sink s) \<longleftrightarrow>
        consecutive_condition cfg s \<or> rate_condition cfg s \<or> drawdown_condition cfg gb sink s"
    using checkConsecutiveFailures_tripped [of cfg s] checkFailureRate_tripped [of cfg s]
    by (simp add: checkCircuitBreakers_unfold checkEmergencyStopLoss_trips)
         (simp add: trips_def)
  have off: "\<not> enableCircuitBreaker cfg \<Longrightarrow>
      checkCircuitBreakers cfg gb sink s = (s, Inr not_tripped) \<and> recordTradeResult cfg b s = s"
    by (simp add: checkCircuitBreakers_unfold recordTradeResult_def)
  have first: "enableCircuitBreaker cfg \<Longrightarrow> consecutive_condition cfg s \<Longrightarrow>
      checkCircuitBreakers cfg gb sink s =
        (s, Inr \<lparr>tripped = True, reason = ConsecutiveFailuresReason (consecutiveFailures s)\<rparr>)"
    by (simp add: checkCircuitBreakers_unfold checkConsecutiveFailures_def consecutive_condition_def)
  have second: "enableCircuitBreaker cfg \<Longrightarrow> \<not> consecutive_condition cfg s \<Longrightarrow> rate_condition cfg s \<Longrightarrow>
      checkCircuitBreakers cfg gb sink s =
        (s, Inr \<lparr>tripped = True,
                 reason = FailureRateReason (length (filter (\<lambda>r. \<not> r) (recentTrades s)))
                            (length (recentTrades s))\<rparr>)"
    by (simp add: checkCircuitBreakers_unfold checkFailureRate_def rate_condition_def Let_def)
  have third: "enableCircuitBreaker cfg \<Longrightarrow> \<not> consecutive_condition cfg s \<Longrightarrow> \<not> rate_condition cfg s \<Longrightarrow>
      checkCircuitBreakers cfg gb sink s = checkEmergencyStopLoss cfg gb sink s"
    by (simp add: checkCircuitBreakers_unfold)
  show ?thesis
    using iff off first second third recordTradeResult_streak [of cfg True s]
      record_all_streak_fresh [of cfg outcomes]
    by simp
qed

text \<open>
  The example of claim C1 fails: with \<open>maxConsecutiveFailures = 3\<close>, a check made after the
  first three failures of the run (three failures, a success, three failures) trips
  already, before the success and the second streak.
\<close>

theorem circuit_breaker_example_counterexample:
  "trips (checkCircuitBreakers cfg3 (\<lambda>pk. Inl RpcError) None
            (record_all cfg3 (take 3 [False, False, False, True, False, False, False]) cb_constructor))"
  by (simp add: checkCircuitBreakers_unfold consecutive_condition_def cfg3_def record_all_def
        recordTradeResult_def cb_constructor_def checkConsecutiveFailures_def trips_def)

theorem circuit_breaker_precedence_witness:
  "enableCircuitBreaker cfg3
   \<and> consecutive_condition cfg3
         (record_all cfg3 [False, False, False, True, False, False, False] cb_constructor)
   \<and> trips (checkCircuitBreakers cfg3 (\<lambda>pk. Inl RpcError) None
         (record_all cfg3 [False, False, False, True, False, False, False] cb_constructor))
   \<and> consecutiveFailures (record_all cfg3 [False, False, False, True, False, False] cb_constructor) = 2
   \<and> \<not> consecutive_condition cfg3
         (record_all cfg3 [False, False, False, True, False, False] cb_constructor)"
  using circuit_breaker_precedence [of cfg3 "\<lambda>pk. Inl RpcError" None
          "record_all cfg3 [False, False, False, True, False, False, False] cb_constructor" True
          "[False, False, False, True, False, False]"]
  by (simp add: consecutive_condition_def cfg3_def record_all_def recordTradeResult_def
        cb_constructor_def trips_def)

text \<open>
  The parts of claim C8 that hold. Every call of \<open>checkEmergencyStopLoss\<close> adds one to
  the counter, and unless the new count is a multiple of \<open>SINK_BALANCE_CHECK_INTERVAL\<close>
  the call returns "not tripped" without reading any balance. The baseline is the
  balance stored once by \<open>lock_initial_balance\<close>: recording outcomes and checking leave
  it as it is. When the drawdown is evaluated, the loss is computed in integers as basis
  points of the baseline, \<open>(initial - current) * 10000 / initial\<close> truncated; the
  comparison is then made in doubles.
\<close>

lemma stop_loss_throttled:
  "checkCounter (fst (checkEmergencyStopLoss cfg gb sink s)) = checkCounter s + 1
   \<and> checkCounter (stop_loss_calls cfg sink replies s) = checkCounter s + length replies
   \<and> ((checkCounter s + 1) mod SINK_BALANCE_CHECK_INTERVAL \<noteq> 0 \<longrightarrow>
        checkEmergencyStopLoss cfg gb sink s
          = (s\<lparr>checkCounter := checkCounter s + 1\<rparr>, Inr not_tripped))
   \<and> (lock_initial_balance gb sink s0 = Inr s \<and> sink = Some k \<longrightarrow> gb k = Inr (initialSinkBalance s))
   \<and> initialSinkBalance (fst (checkEmergencyStopLoss cfg gb' sink s)) = initialSinkBalance s
   \<and> initialSinkBalance (recordTradeResult cfg b s) = initialSinkBalance s
   \<and> initialSinkBalance (fst (checkCircuitBreakers cfg gb' sink s)) = initialSinkBalance s
   \<and> (sink = Some k \<and> gb' k = Inr cur \<and> initialSinkBalance s > 0
        \<and> (checkCounter s + 1) mod SINK_BALANCE_CHECK_INTERVAL = 0 \<longrightarrow>
        (trips (checkEmergencyStopLoss cfg gb' sink s) \<longleftrightarrow>
           fl (fl (of_int (bigint_div ((initialSinkBalance s - cur) * 10000) (initialSinkBalance s)))
                 / 10000)
             > emergencyStopLoss cfg))"
proof -
  have "lock_initial_balance gb sink s0 = Inr s \<Longrightarrow> sink = Some k \<Longrightarrow> gb k = Inr (initialSinkBalance s)"
    by (auto simp: lock_initial_balance_def split: sum.splits)
  then show ?thesis
    using stop_loss_counter [of cfg gb sink s] stop_loss_calls_counter [of cfg sink replies s]
      stop_loss_skipped [of s cfg gb sink] stop_loss_baseline [of cfg gb' sink s]
      baseline_record [of cfg b s] baseline_check [of cfg gb' sink s]
      stop_loss_evaluated [of sink k gb' cur s cfg]
    by (intro conjI impI; (elim conjE)?; assumption?)
qed

text \<open>The numbers of the example: the threshold that \<open>validatePercentage\<close> makes of
  \<open>2.8\<close> is the double below 0.028, and 280 basis points become the double above it.\<close>

lemma threshold_28:
  "validate (Some (28 / 10)) validatePercentage 30 = Some (emergencyStopLoss cfg_stop28)"
  unfolding validate_def validatePercentage_def validateNumber_def cfg_stop28_def
  by code_simp

text \<open>Without the variable the default is taken as it is: a threshold of 30, which no
  loss can exceed.\<close>

lemma threshold_default: "validate None validatePercentage 30 = Some 30"
  by (simp add: validate_def)

lemma loss_280_exceeds: "fl (fl (of_int 280) / 10000) > emergencyStopLoss cfg_stop28"
  unfolding cfg_stop28_def
  by code_simp

lemma threshold_28_below: "emergencyStopLoss cfg_stop28 < 28 / 1000"
  unfolding cfg_stop28_def
  by code_simp

text \<open>
  Claim C8 fails on the arithmetic. With \<open>EMERGENCY_STOP_LOSS_PCT=2.8\<close>, a baseline
  of 1000000 lamports and a balance of 972000 at the fifth check, the loss is 280 basis
  points, exactly 2.8 percent: it does not exceed the threshold, in basis points (280
  against 280) or as a fraction. The code converts the 280 basis points to the double
  \<open>0.028\<close> and compares it with the double \<open>2.8 / 100\<close>, which is smaller, and trips.
\<close>

theorem stop_loss_floating_point:
  "validate (Some (28 / 10)) validatePercentage 30 = Some (emergencyStopLoss cfg_stop28)
   \<and> (checkCounter cb_at4 + 1) mod SINK_BALANCE_CHECK_INTERVAL = 0
   \<and> bigint_div ((initialSinkBalance cb_at4 - 972000) * 10000) (initialSinkBalance cb_at4) = 280
   \<and> \<not> spec_drawdown_trips 280 (initialSinkBalance cb_at4) 972000
   \<and> \<not> (of_int (initialSinkBalance cb_at4 - 972000) / of_int (initialSinkBalance cb_at4)
           > (28 / 10 :: rat) / 100)
   \<and> checkEmergencyStopLoss cfg_stop28 (\<lambda>pk. Inr 972000) (Some ''sink'') cb_at4
       = (cb_at4\<lparr>checkCounter := 5\<rparr>, Inr \<lparr>tripped = True, reason = StopLossReason 280\<rparr>)"
proof -
  have bp: "bigint_div ((initialSinkBalance cb_at4 - 972000) * 10000) (initialSinkBalance cb_at4) = 280"
    by (simp add: cb_at4_def bigint_div_def)
  have "checkEmergencyStopLoss cfg_stop28 (\<lambda>pk. Inr 972000) (Some ''sink'') cb_at4
       = (cb_at4\<lparr>checkCounter := 5\<rparr>, Inr \<lparr>tripped = True, reason = StopLossReason 280\<rparr>)"
    using loss_280_exceeds
    by (simp add: checkEmergencyStopLoss_def cb_at4_def SINK_BALANCE_CHECK_INTERVAL_def
          bigint_div_def Let_def)
  with bp threshold_28 show ?thesis
    by (simp add: cb_at4_def SINK_BALANCE_CHECK_INTERVAL_def spec_drawdown_trips_def)
qed

theorem stop_loss_floating_point_witness:
  "trips (checkEmergencyStopLoss cfg_stop28 (\<lambda>pk. Inr 972000) (Some ''sink'') cb_at4)
   \<and> \<not> spec_drawdown_trips 280 1000000 972000"
  using stop_loss_floating_point
  by (simp add: trips_def cb_at4_def)

section \<open>Properties of the burner wallet manager\<close>

lemma map_has_delete [simp]: "map_has k (map_delete k' m) \<longleftrightarrow> k \<noteq> k' \<and> map_has k m"
  by (auto simp: map_has_def map_delete_def)

lemma map_fst_map_set:
  "map fst (map_set k v m) = (if k \<in> set (map fst m) then map fst m else map fst m @ [k])"
  by (induction m) (simp, fastforce)

lemma map_has_set [simp]: "map_has k (map_set k' v m) \<longleftrightarrow> k = k' \<or> map_has k m"
  by (auto simp: map_has_def map_fst_map_set)

lemma wallets_forget_all:
  "burnerWallets (fold forget_burner ks m) = filter (\<lambda>e. fst e \<notin> set ks) (burnerWallets m)"
  by (induction ks arbitrary: m) (auto simp: forget_burner_def map_delete_def intro: filter_cong)

lemma pending_forget_all:
  "pendingDisposal (fold forget_burner ks m) = pendingDisposal m - set ks"
  by (induction ks arbitrary: m) (auto simp: forget_burner_def)

lemma counts_forget_all:
  "burnerTradeCount (fold forget_burner ks m) k = (if k \<in> set ks then None else burnerTradeCount m k)"
  by (induction ks arbitrary: m) (auto simp: forget_burner_def)

lemma wallets_cleanup:
  "set (burnerWallets (cleanupBurners now m)) \<subseteq> set (burnerWallets m)"
  by (auto simp: cleanupBurners_def Let_def wallets_forget_all)

lemma pending_cleanup:
  "pendingDisposal (cleanupBurners now m)
     = pendingDisposal m - fst ` {e \<in> set (burnerWallets m). now - snd e > EXPIRY_TIME}"
  by (simp add: cleanupBurners_def Let_def pending_forget_all)

lemma wallets_cleanup_kept:
  "e \<in> set (burnerWallets (cleanupBurners now m)) \<Longrightarrow>
   fst e \<notin> fst ` {e \<in> set (burnerWallets m). now - snd e > EXPIRY_TIME}"
  by (auto simp: cleanupBurners_def Let_def wallets_forget_all)

lemma counts_cleanup:
  "e \<in> set (burnerWallets (cleanupBurners now m)) \<Longrightarrow>
   burnerTradeCount (cleanupBurners now m) (fst e) = cap_counts 100 (burnerTradeCount m) (fst e)"
  by (auto simp: cleanupBurners_def Let_def wallets_forget_all counts_forget_all cap_counts_def)

lemma get_or_0_capped:
  "get_or_0 (cap_counts c m) k \<ge> n \<Longrightarrow> 0 \<le> c \<Longrightarrow> get_or_0 m k \<ge> n \<or> n \<le> 0"
  by (auto simp: get_or_0_def cap_counts_def split: option.splits if_splits)

lemma get_or_0_capped_le:
  "get_or_0 (cap_counts c m) k \<ge> n \<Longrightarrow> get_or_0 m k \<ge> n"
  by (auto simp: get_or_0_def cap_counts_def split: option.splits if_splits)

lemma cap_inv_cleanup: "cap_inv cfg m \<Longrightarrow> cap_inv cfg (cleanupBurners now m)"
  unfolding cap_inv_def list_all_iff
proof
  fix e assume inv: "\<forall>e\<in>set (burnerWallets m). bwcBurnerLifetimeTxs cfg \<le> get_or_0 (burnerTradeCount m) (fst e) \<longrightarrow> fst e \<in> pendingDisposal m"
    and e: "e \<in> set (burnerWallets (cleanupBurners now m))"
  show "bwcBurnerLifetimeTxs cfg \<le> get_or_0 (burnerTradeCount (cleanupBurners now m)) (fst e) \<longrightarrow>
         fst e \<in> pendingDisposal (cleanupBurners now m)"
  proof
    assume "bwcBurnerLifetimeTxs cfg \<le> get_or_0 (burnerTradeCount (cleanupBurners now m)) (fst e)"
    then have "bwcBurnerLifetimeTxs cfg \<le> get_or_0 (cap_counts 100 (burnerTradeCount m)) (fst e)"
      using counts_cleanup [OF e] by (simp add: get_or_0_def)
    then have "bwcBurnerLifetimeTxs cfg \<le> get_or_0 (burnerTradeCount m) (fst e)"
      by (rule get_or_0_capped_le)
    moreover have "e \<in> set (burnerWallets m)"
      using e wallets_cleanup by blast
    ultimately have "fst e \<in> pendingDisposal m"
      using inv by blast
    then show "fst e \<in> pendingDisposal (cleanupBurners now m)"
      using wallets_cleanup_kept [OF e] by (simp add: pending_cleanup)
  qed
qed

lemma cap_inv_schedule: "cap_inv cfg m \<Longrightarrow> cap_inv cfg (scheduleBurnerDisposal pk m)"
  by (auto simp: cap_inv_def list_all_iff scheduleBurnerDisposal_def)

lemma cap_inv_mark: "cap_inv cfg m \<Longrightarrow> cap_inv cfg (markBurnerUsed cfg now pk n m)"
  by (auto simp: cap_inv_def list_all_iff markBurnerUsed_def scheduleBurnerDisposal_def
        markBurnerSeasoningProgress_def Let_def get_or_0_def map_has_def)

lemma mark_reaches_cap:
  assumes "map_has pk (burnerWallets m)"
    and "bwcBurnerLifetimeTxs cfg \<le> get_or_0 (burnerTradeCount m) pk + n"
  shows "pk \<in> pendingDisposal (markBurnerUsed cfg now pk n m)"
  using assms
  by (auto simp: markBurnerUsed_def scheduleBurnerDisposal_def markBurnerSeasoningProgress_def Let_def)

lemma cap_inv_mark_all: "cap_inv cfg m \<Longrightarrow> cap_inv cfg (mark_all cfg calls m)"
  unfolding mark_all_def
  by (induction calls arbitrary: m) (auto simp: cap_inv_mark)

lemma cap_inv_forget: "cap_inv cfg m \<Longrightarrow> cap_inv cfg (forget_burner pk m)"
  by (auto simp: cap_inv_def list_all_iff forget_burner_def map_delete_def get_or_0_def)

lemma cap_inv_dispose: "cap_inv cfg m \<Longrightarrow> cap_inv cfg (disposeBurnerWallet pk m)"
  by (simp add: disposeBurnerWallet_def cap_inv_forget)

lemma set_map_set: "set (map_set k v m) \<subseteq> insert (k, v) (set m)"
  by (induction m) (auto split: if_splits)

lemma cap_inv_create:
  assumes "0 < bwcBurnerLifetimeTxs cfg" "cap_inv cfg m"
  shows "cap_inv cfg (fst (createBurnerWallet pk now ok m))"
  using assms
  by (auto simp: cap_inv_def list_all_iff createBurnerWallet_def Let_def get_or_0_def map_delete_def
        dest!: subsetD [OF set_map_set])

lemma cap_inv_query:
  "cap_inv cfg m \<Longrightarrow> cap_inv cfg (fst (getAvailableBurners cfg now base draws count emergency m))"
  by (simp add: getAvailableBurners_def Let_def cap_inv_cleanup)

lemma cap_inv_apply:
  "0 < bwcBurnerLifetimeTxs cfg \<Longrightarrow> cap_inv cfg m \<Longrightarrow> cap_inv cfg (bm_apply cfg op m)"
  by (cases op) (simp_all add: cap_inv_mark cap_inv_schedule cap_inv_create cap_inv_dispose cap_inv_query)

lemma cap_inv_constructor: "cap_inv cfg bm_constructor"
  by (simp add: cap_inv_def bm_constructor_def)

lemma cap_inv_run:
  "0 < bwcBurnerLifetimeTxs cfg \<Longrightarrow> cap_inv cfg m \<Longrightarrow> cap_inv cfg (fold (bm_apply cfg) ops m)"
  by (induction ops arbitrary: m) (simp_all add: cap_inv_apply)

text \<open>What a query returns.\<close>

lemma set_slice0: "set (slice0 xs e) \<subseteq> set xs"
  by (auto simp: slice0_def dest: in_set_takeD)

lemma length_slice0: "0 \<le> e \<Longrightarrow> length (slice0 xs e) \<le> nat e"
  by (simp add: slice0_def)

lemma query_returns:
  assumes "b \<in> set (snd (getAvailableBurners cfg now base draws count emergency m))"
  shows "\<exists>e \<in> set (burnerWallets (cleanupBurners now m)).
           b = as_available cfg (cleanupBurners now m) e
           \<and> burner_ready cfg now base (cleanupBurners now m) (fst e)"
proof -
  have "b \<in> set (map (as_available cfg (cleanupBurners now m))
                   (filter (\<lambda>e. burner_ready cfg now base (cleanupBurners now m) (fst e))
                      (burnerWallets (cleanupBurners now m))))"
    using assms set_slice0
    by (fastforce simp: getAvailableBurners_def Let_def split: if_splits)
  then show ?thesis by auto
qed

lemma query_state:
  "fst (getAvailableBurners cfg now base draws count emergency m)
     = (if \<not> bwcEnabled cfg \<or> bwcMode cfg = ModeDisabled then m else cleanupBurners now m)"
  by (simp add: getAvailableBurners_def Let_def)

lemma query_count_below_cap:
  assumes "b \<in> set (snd (getAvailableBurners cfg now base draws count emergency m))"
  shows "ab_txCount b < bwcBurnerLifetimeTxs cfg"
    and "ab_txCount b = get_or_0 (burnerTradeCount (fst (getAvailableBurners cfg now base draws count emergency m))) (ab_pubkey b)"
    and "ab_pubkey b \<notin> pendingDisposal (fst (getAvailableBurners cfg now base draws count emergency m))"
    and "map_has (ab_pubkey b) (burnerWallets (fst (getAvailableBurners cfg now base draws count emergency m)))"
proof -
  from assms have on: "\<not> (\<not> bwcEnabled cfg \<or> bwcMode cfg = ModeDisabled)"
    by (auto simp: getAvailableBurners_def split: if_splits)
  from query_returns [OF assms] obtain e where
    e: "e \<in> set (burnerWallets (cleanupBurners now m))"
      "b = as_available cfg (cleanupBurners now m) e"
      "burner_ready cfg now base (cleanupBurners now m) (fst e)"
    by blast
  from e show "ab_txCount b < bwcBurnerLifetimeTxs cfg"
    by (simp add: as_available_def burner_ready_def Let_def)
  from e on show "ab_txCount b = get_or_0 (burnerTradeCount (fst (getAvailableBurners cfg now base draws count emergency m))) (ab_pubkey b)"
    by (simp add: as_available_def query_state)
  from e on show "ab_pubkey b \<notin> pendingDisposal (fst (getAvailableBurners cfg now base draws count emergency m))"
    by (simp add: as_available_def query_state burner_ready_def)
  from e on show "map_has (ab_pubkey b) (burnerWallets (fst (getAvailableBurners cfg now base draws count emergency m)))"
    by (auto simp: as_available_def query_state map_has_def)
qed

text \<open>Pending, or not tracked: kept by every operation except the creation under that key.\<close>

lemma excluded_forget: "excluded pk m \<Longrightarrow> excluded pk (forget_burner k m)"
  by (auto simp: excluded_def forget_burner_def)

lemma excluded_forget_all: "excluded pk m \<Longrightarrow> excluded pk (fold forget_burner ks m)"
  by (induction ks arbitrary: m) (simp_all add: excluded_forget)

lemma excluded_cleanup: "excluded pk m \<Longrightarrow> excluded pk (cleanupBurners now m)"
  using excluded_forget_all [of pk m]
  by (simp add: cleanupBurners_def Let_def excluded_def)

lemma excluded_query:
  "excluded pk m \<Longrightarrow> excluded pk (fst (getAvailableBurners cfg now base draws count emergency m))"
  by (simp add: query_state excluded_cleanup)

lemma excluded_schedule: "excluded pk m \<Longrightarrow> excluded pk (scheduleBurnerDisposal k m)"
  by (auto simp: excluded_def scheduleBurnerDisposal_def)

lemma excluded_mark: "excluded pk m \<Longrightarrow> excluded pk (markBurnerUsed cfg now k n m)"
  by (auto simp: excluded_def markBurnerUsed_def scheduleBurnerDisposal_def
        markBurnerSeasoningProgress_def Let_def)

lemma excluded_dispose: "excluded pk m \<Longrightarrow> excluded pk (disposeBurnerWallet k m)"
  by (simp add: disposeBurnerWallet_def excluded_forget)

lemma excluded_create:
  "k \<noteq> pk \<Longrightarrow> excluded pk m \<Longrightarrow> excluded pk (fst (createBurnerWallet k now ok m))"
  by (auto simp: excluded_def createBurnerWallet_def Let_def)

lemma excluded_apply:
  "\<not> creates pk [op] \<Longrightarrow> excluded pk m \<Longrightarrow> excluded pk (bm_apply cfg op m)"
  by (cases op)
     (simp_all add: creates_def excluded_mark excluded_schedule excluded_create excluded_dispose
        excluded_query)

lemma excluded_not_returned:
  assumes "excluded pk m"
  shows "pk \<notin> ab_pubkey ` set (snd (getAvailableBurners cfg now base draws count emergency m))"
proof
  assume "pk \<in> ab_pubkey ` set (snd (getAvailableBurners cfg now base draws count emergency m))"
  then obtain b where b: "b \<in> set (snd (getAvailableBurners cfg now base draws count emergency m))"
    and pk: "pk = ab_pubkey b"
    by blast
  from excluded_query [OF assms, of cfg now base draws count emergency]
    query_count_below_cap(3,4) [OF b] pk show False
    by (simp add: excluded_def)
qed

lemma creates_Cons: "creates pk (op # ops) \<longleftrightarrow> creates pk [op] \<or> creates pk ops"
  by (simp add: creates_def)

lemma excluded_run:
  "excluded pk m \<Longrightarrow> \<not> creates pk ops \<Longrightarrow>
   \<forall>answer \<in> set (bm_answers cfg ops m). pk \<notin> ab_pubkey ` set answer"
proof (induction ops arbitrary: m)
  case Nil
  then show ?case by simp
next
  case (Cons op ops)
  from Cons.prems have step: "excluded pk (bm_apply cfg op m)" and rest: "\<not> creates pk ops"
    using creates_Cons [of pk op ops] excluded_apply [of pk op m cfg] by auto
  show ?case
  proof (cases op)
    case (Query now base draws count emergency)
    with Cons.IH [OF step rest] excluded_not_returned [OF Cons.prems(1)] show ?thesis
      by simp
  qed (use Cons.IH [OF step rest] in simp_all)
qed

lemma getAvailableBurners_ignores_draws:
  "getAvailableBurners cfg now base draws count emergency m
     = getAvailableBurners cfg now base draws' count emergency m"
  by (simp add: getAvailableBurners_def Let_def)

lemma cooldown_30000: "getBurnerCooldown 30000 0 = 30000"
  unfolding getBurnerCooldown_def Let_def
  by code_simp

lemma fl_2: "fl 2 = 2"
  by code_simp

text \<open>Two computations in which the rounding shows: the cooldown for a base of 40965 ms
  after four transactions (the exact product is 57351), and the number of burners for a
  count of 100 with a ratio of 0.07 (the exact product is 7).\<close>

lemma cooldown_rounded: "getBurnerCooldown 40965 4 = 57350"
  unfolding getBurnerCooldown_def Let_def
  by code_simp

lemma target_count_rounded: "\<lceil>fl (of_int 100 * fl (7 / 100))\<rceil> = 8"
  by code_simp

lemma two_burners_eval:
  "two_burners = \<lparr>burnerWallets = [(''A'', 0), (''B'', 0)],
      burnerCooldowns = [''A'' \<mapsto> 0, ''B'' \<mapsto> 0],
      burnerTradeCount = [''A'' \<mapsto> 0, ''B'' \<mapsto> 0],
      burnerSeasoningCount = Map.empty, pendingDisposal = {}, disposalTimers = []\<rparr>"
  by (simp add: two_burners_def createBurnerWallet_def bm_constructor_def Let_def)

lemma cleanup_two_burners: "cleanupBurners 100000 two_burners = two_burners"
  by (simp add: two_burners_eval cleanupBurners_def Let_def EXPIRY_TIME_def
        drop_old_cooldowns_def cap_counts_def fun_eq_iff)

text \<open>
  Claim C7 at a state with two ready burners: whatever indices the shuffle draws, the
  burners come back in the order of the map, \<open>A\<close> before \<open>B\<close>, although
  \<open>shuffleArray\<close> has exchanged them in the copy it returned.
\<close>

theorem getAvailableBurners_not_shuffled:
  "map ab_pubkey (snd (getAvailableBurners cfg_bwc 100000 (\<lambda>pk. 30000) draws 2 False two_burners))
     = [''A'', ''B'']
   \<and> shuffleArray (\<lambda>i. 0) [''A'', ''B''] = [''B'', ''A'']"
  apply (simp add: getAvailableBurners_def Let_def cleanup_two_burners)
  apply (simp add: two_burners_eval cfg_bwc_def burner_ready_def cooldown_30000 fl_2 get_or_0_def
      as_available_def slice0_def shuffleArray_def Let_def)
  done

theorem getAvailableBurners_not_shuffled_witness:
  "bwcEnabled cfg_bwc \<and> bwcMode cfg_bwc \<noteq> ModeDisabled
   \<and> map ab_pubkey (snd (getAvailableBurners cfg_bwc 100000 (\<lambda>pk. 30000) (\<lambda>i. 0) 2 False two_burners))
       = [''A'', ''B'']
   \<and> map ab_pubkey (snd (getAvailableBurners cfg_bwc 100000 (\<lambda>pk. 30000) (\<lambda>i. i) 2 False two_burners))
       = [''A'', ''B'']"
  using getAvailableBurners_not_shuffled [of "\<lambda>i. 0"] getAvailableBurners_not_shuffled [of "\<lambda>i. i"]
  by (simp add: cfg_bwc_def)

text \<open>The other parts of claim C7: what is returned has passed the three tests, and
  for a count that is not negative the length is bounded by the ratio and the count.\<close>

lemma getAvailableBurners_filtered:
  assumes "b \<in> set (snd (getAvailableBurners cfg now base draws count emergency m))"
  shows "now - get_or_0 (burnerCooldowns (cleanupBurners now m)) (ab_pubkey b)
           \<ge> getBurnerCooldown (base (ab_pubkey b)) (ab_txCount b)"
    and "ab_txCount b < bwcBurnerLifetimeTxs cfg"
    and "enableBurnerSeasoning cfg \<longrightarrow> ab_seasoningCount b \<ge> burnerSeasoningMinTxs cfg"
  using query_returns [OF assms]
  by (auto simp: as_available_def burner_ready_def Let_def)

lemma getAvailableBurners_length:
  assumes "0 \<le> count" "0 \<le> bwcBurnerRatio cfg" "0 \<le> bwcEmergencyBurnerRatio cfg"
  shows "int (length (snd (getAvailableBurners cfg now base draws count emergency m)))
           \<le> min \<lceil>fl (of_int count * (if emergency then bwcEmergencyBurnerRatio cfg
                                         else bwcBurnerRatio cfg))\<rceil> count"
proof -
  define target where
    "target = \<lceil>fl (of_int count * (if emergency then bwcEmergencyBurnerRatio cfg else bwcBurnerRatio cfg))\<rceil>"
  have "0 \<le> of_int count * (if emergency then bwcEmergencyBurnerRatio cfg else bwcBurnerRatio cfg)"
    using assms by simp
  then have "0 \<le> fl (of_int count * (if emergency then bwcEmergencyBurnerRatio cfg else bwcBurnerRatio cfg))"
    by (rule fl_nonneg)
  then have "0 \<le> target"
    unfolding target_def by (simp add: le_ceiling_iff)
  with assms(1) have nonneg: "0 \<le> min target count"
    by simp
  show ?thesis
  proof (cases "\<not> bwcEnabled cfg \<or> bwcMode cfg = ModeDisabled")
    case True
    with nonneg show ?thesis
      unfolding target_def by (simp add: getAvailableBurners_def)
  next
    case False
    have "\<exists>available.
      snd (getAvailableBurners cfg now base draws count emergency m) = slice0 available (min target count)"
      using False by (cases emergency) (auto simp: getAvailableBurners_def Let_def target_def)
    then obtain available where eq:
      "snd (getAvailableBurners cfg now base draws count emergency m) = slice0 available (min target count)"
      by blast
    have "int (length (slice0 available (min target count))) \<le> min target count"
      using length_slice0 [OF nonneg, of available] nonneg by linarith
    then have "int (length (snd (getAvailableBurners cfg now base draws count emergency m)))
            \<le> min target count"
      unfolding eq .
    then show ?thesis
      unfolding target_def .
  qed
qed

text \<open>What \<open>markBurnerUsed\<close> stores.\<close>

lemma mark_count:
  "map_has pk (burnerWallets m) \<Longrightarrow>
   get_or_0 (burnerTradeCount (markBurnerUsed cfg now pk n m)) pk = get_or_0 (burnerTradeCount m) pk + n"
  by (simp add: markBurnerUsed_def scheduleBurnerDisposal_def markBurnerSeasoningProgress_def Let_def
        get_or_0_def)

lemma mark_count_other:
  "k \<noteq> pk \<Longrightarrow>
   get_or_0 (burnerTradeCount (markBurnerUsed cfg now k n m)) pk = get_or_0 (burnerTradeCount m) pk"
  by (simp add: markBurnerUsed_def scheduleBurnerDisposal_def markBurnerSeasoningProgress_def Let_def
        get_or_0_def)

lemma mark_wallets: "burnerWallets (markBurnerUsed cfg now k n m) = burnerWallets m"
  by (simp add: markBurnerUsed_def scheduleBurnerDisposal_def markBurnerSeasoningProgress_def Let_def)

lemma mark_all_wallets: "burnerWallets (mark_all cfg calls m) = burnerWallets m"
  unfolding mark_all_def
  by (induction calls arbitrary: m) (simp_all add: mark_wallets split: prod.splits)

lemma mark_all_count:
  "map_has pk (burnerWallets m) \<Longrightarrow>
   get_or_0 (burnerTradeCount (mark_all cfg calls m)) pk
     = get_or_0 (burnerTradeCount m) pk + used_by pk calls"
proof (induction calls arbitrary: m)
  case Nil
  then show ?case by (simp add: mark_all_def used_by_def)
next
  case (Cons c calls)
  obtain now k n where c: "c = (now, k, n)"
    by (cases c)
  have step: "mark_all cfg (c # calls) m = mark_all cfg calls (markBurnerUsed cfg now k n m)"
    by (simp add: mark_all_def c)
  have tracked: "map_has pk (burnerWallets (markBurnerUsed cfg now k n m))"
    using Cons.prems by (simp add: mark_wallets)
  have "get_or_0 (burnerTradeCount (markBurnerUsed cfg now k n m)) pk
          = get_or_0 (burnerTradeCount m) pk + (if k = pk then n else 0)"
    using Cons.prems by (simp add: mark_count mark_count_other)
  with Cons.IH [OF tracked] show ?case
    unfolding step by (simp add: used_by_def c)
qed

text \<open>In a state that satisfies the invariant, a tracked burner whose count has reached
  the cap is pending, and no query returns it.\<close>

lemma cap_reached_pending:
  assumes "cap_inv cfg m" "map_has pk (burnerWallets m)"
    and "bwcBurnerLifetimeTxs cfg \<le> get_or_0 (burnerTradeCount m) pk"
  shows "pk \<in> pendingDisposal m"
    and "pk \<notin> ab_pubkey ` set (snd (getAvailableBurners cfg now base draws count emergency m))"
proof -
  from assms show pending: "pk \<in> pendingDisposal m"
    by (auto simp: cap_inv_def list_all_iff map_has_def)
  then have "excluded pk m"
    by (simp add: excluded_def)
  then show "pk \<notin> ab_pubkey ` set (snd (getAvailableBurners cfg now base draws count emergency m))"
    by (rule excluded_not_returned)
qed

lemma mark_all_reaches_cap:
  assumes "cap_inv cfg m" "map_has pk (burnerWallets m)"
    and "bwcBurnerLifetimeTxs cfg \<le> get_or_0 (burnerTradeCount m) pk + used_by pk calls"
  shows "pk \<in> pendingDisposal (mark_all cfg calls m)"
    and "pk \<notin> ab_pubkey ` set (snd (getAvailableBurners cfg now base draws count emergency
                                        (mark_all cfg calls m)))"
proof -
  have inv: "cap_inv cfg (mark_all cfg calls m)"
    using assms(1) by (rule cap_inv_mark_all)
  have tracked: "map_has pk (burnerWallets (mark_all cfg calls m))"
    using assms(2) by (simp add: mark_all_wallets)
  have reached: "bwcBurnerLifetimeTxs cfg \<le> get_or_0 (burnerTradeCount (mark_all cfg calls m)) pk"
    using assms(3) by (simp add: mark_all_count [OF assms(2)])
  show "pk \<in> pendingDisposal (mark_all cfg calls m)"
    by (rule cap_reached_pending(1) [OF inv tracked reached])
  show "pk \<notin> ab_pubkey ` set (snd (getAvailableBurners cfg now base draws count emergency
                                        (mark_all cfg calls m)))"
    by (rule cap_reached_pending(2) [OF inv tracked reached])
qed

text \<open>
  Claim C4. \<open>markBurnerUsed\<close> adds the reported transactions to the lifetime count of a
  tracked burner, so after any sequence of calls the count is the count before plus
  what the calls reported for it. The invariant "a tracked burner whose count has
  reached \<open>bwcBurnerLifetimeTxs\<close> is in \<open>pendingDisposal\<close>" holds of the manager as
  constructed, is kept by any sequence of calls of \<open>markBurnerUsed\<close>, and, for a
  positive cap, by any run of the manager's operations. A call of \<open>markBurnerUsed\<close>
  that brings the count of a tracked burner to the cap or beyond leaves it in
  \<open>pendingDisposal\<close>; after a sequence of calls that brings the count to the cap or
  beyond the burner is pending and no query returns it; the same holds in every state
  the manager reaches from its construction. Every burner returned by
  \<open>getAvailableBurners\<close> has a count below the cap, the count stored for it after
  the call.
\<close>

theorem lifetime_cap_schedules_disposal:
  "(map_has pk (burnerWallets m) \<longrightarrow>
      get_or_0 (burnerTradeCount (markBurnerUsed cfg now pk txCount m)) pk
        = get_or_0 (burnerTradeCount m) pk + txCount)
   \<and> (map_has pk (burnerWallets m) \<longrightarrow>
        get_or_0 (burnerTradeCount (mark_all cfg calls m)) pk
          = get_or_0 (burnerTradeCount m) pk + used_by pk calls)
   \<and> (cap_inv cfg m \<longrightarrow> cap_inv cfg (mark_all cfg calls m))
   \<and> cap_inv cfg bm_constructor
   \<and> (0 < bwcBurnerLifetimeTxs cfg \<longrightarrow> cap_inv cfg (fold (bm_apply cfg) ops bm_constructor))
   \<and> (map_has pk (burnerWallets m)
        \<and> bwcBurnerLifetimeTxs cfg \<le> get_or_0 (burnerTradeCount m) pk + txCount \<longrightarrow>
        pk \<in> pendingDisposal (markBurnerUsed cfg now pk txCount m))
   \<and> (cap_inv cfg m \<and> map_has pk (burnerWallets m)
        \<and> bwcBurnerLifetimeTxs cfg \<le> get_or_0 (burnerTradeCount m) pk + used_by pk calls \<longrightarrow>
        pk \<in> pendingDisposal (mark_all cfg calls m)
        \<and> pk \<notin> ab_pubkey ` set (snd (getAvailableBurners cfg now' base draws count emergency
                                          (mark_all cfg calls m))))
   \<and> (0 < bwcBurnerLifetimeTxs cfg
        \<and> map_has pk (burnerWallets (fold (bm_apply cfg) ops bm_constructor))
        \<and> bwcBurnerLifetimeTxs cfg
             \<le> get_or_0 (burnerTradeCount (fold (bm_apply cfg) ops bm_constructor)) pk \<longrightarrow>
        pk \<in> pendingDisposal (fold (bm_apply cfg) ops bm_constructor)
        \<and> pk \<notin> ab_pubkey ` set (snd (getAvailableBurners cfg now' base draws count emergency
                                          (fold (bm_apply cfg) ops bm_constructor))))
   \<and> (b \<in> set (snd (getAvailableBurners cfg now' base draws count emergency m)) \<longrightarrow>
        ab_txCount b < bwcBurnerLifetimeTxs cfg
        \<and> ab_txCount b =
            get_or_0 (burnerTradeCount (fst (getAvailableBurners cfg now' base draws count emergency m)))
              (ab_pubkey b))"
proof -
  have reach: "pk \<in> pendingDisposal (fold (bm_apply cfg) ops bm_constructor)
        \<and> pk \<notin> ab_pubkey ` set (snd (getAvailableBurners cfg now' base draws count emergency
                                          (fold (bm_apply cfg) ops bm_constructor)))"
    if "0 < bwcBurnerLifetimeTxs cfg"
      and "map_has pk (burnerWallets (fold (bm_apply cfg) ops bm_constructor))"
      and "bwcBurnerLifetimeTxs cfg
             \<le> get_or_0 (burnerTradeCount (fold (bm_apply cfg) ops bm_constructor)) pk"
    using cap_reached_pending [OF cap_inv_run [OF that(1) cap_inv_constructor] that(2) that(3)]
    by simp
  have seq: "pk \<in> pendingDisposal (mark_all cfg calls m)
        \<and> pk \<notin> ab_pubkey ` set (snd (getAvailableBurners cfg now' base draws count emergency
                                          (mark_all cfg calls m)))"
    if "cap_inv cfg m" and "map_has pk (burnerWallets m)"
      and "bwcBurnerLifetimeTxs cfg \<le> get_or_0 (burnerTradeCount m) pk + used_by pk calls"
    using mark_all_reaches_cap [OF that] by simp
  have ret: "ab_txCount b < bwcBurnerLifetimeTxs cfg
        \<and> ab_txCount b =
            get_or_0 (burnerTradeCount (fst (getAvailableBurners cfg now' base draws count emergency m)))
              (ab_pubkey b)"
    if "b \<in> set (snd (getAvailableBurners cfg now' base draws count emergency m))"
    using query_count_below_cap(1,2) [OF that] by simp
  show ?thesis
    apply (rule conjI, rule impI, erule mark_count)
    apply (rule conjI, rule impI, erule mark_all_count)
    apply (rule conjI, rule impI, erule cap_inv_mark_all)
    apply (rule conjI, rule cap_inv_constructor)
    apply (rule conjI, rule impI, erule cap_inv_run, rule cap_inv_constructor)
    apply (rule conjI, rule impI, erule conjE, erule (1) mark_reaches_cap)
    apply (rule conjI, rule impI, (erule conjE)+, erule (2) seq)
    apply (rule conjI, rule impI, (erule conjE)+, erule (2) reach)
    apply (rule impI, erule ret)
    done
qed

theorem lifetime_cap_schedules_disposal_witness:
  "cap_inv cfg_bwc two_burners
   \<and> map_has ''A'' (burnerWallets two_burners)
   \<and> get_or_0 (burnerTradeCount two_burners) ''A'' = 0
   \<and> used_by ''A'' [(1000, ''A'', 2), (2000, ''B'', 1), (3000, ''A'', 3)] = 5
   \<and> bwcBurnerLifetimeTxs cfg_bwc = 5
   \<and> get_or_0 (burnerTradeCount
         (mark_all cfg_bwc [(1000, ''A'', 2), (2000, ''B'', 1), (3000, ''A'', 3)] two_burners)) ''A'' = 5
   \<and> cap_inv cfg_bwc (mark_all cfg_bwc [(1000, ''A'', 2), (2000, ''B'', 1), (3000, ''A'', 3)] two_burners)
   \<and> ''A'' \<in> pendingDisposal
         (mark_all cfg_bwc [(1000, ''A'', 2), (2000, ''B'', 1), (3000, ''A'', 3)] two_burners)
   \<and> ''A'' \<notin> ab_pubkey ` set (snd (getAvailableBurners cfg_bwc 100000 (\<lambda>pk. 30000) (\<lambda>i. 0) 2 False
         (mark_all cfg_bwc [(1000, ''A'', 2), (2000, ''B'', 1), (3000, ''A'', 3)] two_burners)))
   \<and> get_or_0 (burnerTradeCount (markBurnerUsed cfg_bwc 1000 ''A'' 6 two_burners)) ''A'' = 6
   \<and> ''A'' \<in> pendingDisposal (markBurnerUsed cfg_bwc 1000 ''A'' 6 two_burners)
   \<and> cap_inv cfg_bwc (fold (bm_apply cfg_bwc) [Create ''A'' 0 True, MarkUsed 1000 ''A'' 7] bm_constructor)
   \<and> as_available cfg_bwc two_burners (''A'', 0)
        \<in> set (snd (getAvailableBurners cfg_bwc 100000 (\<lambda>pk. 30000) (\<lambda>i. 0) 2 False two_burners))
   \<and> ab_txCount (as_available cfg_bwc two_burners (''A'', 0)) < bwcBurnerLifetimeTxs cfg_bwc"
proof -
  note inst = lifetime_cap_schedules_disposal [of "''A''" two_burners cfg_bwc 1000 6
          "[(1000, ''A'', 2), (2000, ''B'', 1), (3000, ''A'', 3)]"
          "[Create ''A'' 0 True, MarkUsed 1000 ''A'' 7]" 100000 "\<lambda>pk. 30000" "\<lambda>i. 0" 2 False
          "as_available cfg_bwc two_burners (''A'', 0)"]
  have h1: "cap_inv cfg_bwc two_burners"
    by (simp add: cap_inv_def two_burners_eval cfg_bwc_def get_or_0_def)
  have h2: "map_has ''A'' (burnerWallets two_burners)"
    by (simp add: two_burners_eval map_has_def)
  have h3: "get_or_0 (burnerTradeCount two_burners) ''A'' = 0"
    by (simp add: two_burners_eval get_or_0_def)
  have h4: "used_by ''A'' [(1000, ''A'', 2), (2000, ''B'', 1), (3000, ''A'', 3)] = 5"
    by (simp add: used_by_def)
  have h5: "bwcBurnerLifetimeTxs cfg_bwc = 5"
    by (simp add: cfg_bwc_def)
  have h6: "as_available cfg_bwc two_burners (''A'', 0)
        \<in> set (snd (getAvailableBurners cfg_bwc 100000 (\<lambda>pk. 30000) (\<lambda>i. 0) 2 False two_burners))"
    apply (simp add: getAvailableBurners_def Let_def cleanup_two_burners)
    apply (simp add: two_burners_eval cfg_bwc_def burner_ready_def cooldown_30000 fl_2 get_or_0_def
        slice0_def Let_def)
    done
  from inst h2 h3 h4 have c1: "get_or_0 (burnerTradeCount
         (mark_all cfg_bwc [(1000, ''A'', 2), (2000, ''B'', 1), (3000, ''A'', 3)] two_burners)) ''A'' = 5"
    by simp
  from inst h1 have c2: "cap_inv cfg_bwc
      (mark_all cfg_bwc [(1000, ''A'', 2), (2000, ''B'', 1), (3000, ''A'', 3)] two_burners)"
    by blast
  have reached: "bwcBurnerLifetimeTxs cfg_bwc
      \<le> get_or_0 (burnerTradeCount two_burners) ''A''
          + used_by ''A'' [(1000, ''A'', 2), (2000, ''B'', 1), (3000, ''A'', 3)]"
    by (simp add: h3 h4 h5)
  from inst h1 h2 reached have c3: "''A'' \<in> pendingDisposal
         (mark_all cfg_bwc [(1000, ''A'', 2), (2000, ''B'', 1), (3000, ''A'', 3)] two_burners)
     \<and> ''A'' \<notin> ab_pubkey ` set (snd (getAvailableBurners cfg_bwc 100000 (\<lambda>pk. 30000) (\<lambda>i. 0) 2 False
         (mark_all cfg_bwc [(1000, ''A'', 2), (2000, ''B'', 1), (3000, ''A'', 3)] two_burners)))"
    by blast
  from inst h2 h3 have c4: "get_or_0 (burnerTradeCount (markBurnerUsed cfg_bwc 1000 ''A'' 6 two_burners)) ''A'' = 6"
    by simp
  have over: "bwcBurnerLifetimeTxs cfg_bwc \<le> get_or_0 (burnerTradeCount two_burners) ''A'' + 6"
    by (simp add: h3 h5)
  from inst h2 over have c5: "''A'' \<in> pendingDisposal (markBurnerUsed cfg_bwc 1000 ''A'' 6 two_burners)"
    by blast
  have pos: "0 < bwcBurnerLifetimeTxs cfg_bwc"
    by (simp add: h5)
  from inst pos have c6: "cap_inv cfg_bwc
      (fold (bm_apply cfg_bwc) [Create ''A'' 0 True, MarkUsed 1000 ''A'' 7] bm_constructor)"
    by blast
  from inst h6 have c7: "ab_txCount (as_available cfg_bwc two_burners (''A'', 0)) < bwcBurnerLifetimeTxs cfg_bwc"
    by blast
  from h1 h2 h3 h4 h5 h6 c1 c2 c3 c4 c5 c6 c7 show ?thesis
    by blast
qed

text \<open>
  Claim C10. A key in \<open>pendingDisposal\<close> is not among the burners returned by
  \<open>getAvailableBurners\<close>. \<open>scheduleBurnerDisposal\<close> puts a tracked key there. From then
  on, whatever operations follow (marking, scheduling, disposal, creation under other
  keys, queries with their cleanup), no query returns the key; and the disposal removes
  it from every tracking structure.
\<close>

theorem pending_burner_never_available:
  "(pk \<in> pendingDisposal m \<longrightarrow>
      pk \<notin> ab_pubkey ` set (snd (getAvailableBurners cfg now base draws count emergency m)))
   \<and> (map_has pk (burnerWallets m) \<longrightarrow> pk \<in> pendingDisposal (scheduleBurnerDisposal pk m))
   \<and> (pk \<in> pendingDisposal m \<and> \<not> creates pk ops \<longrightarrow>
        (\<forall>answer \<in> set (bm_answers cfg ops m). pk \<notin> ab_pubkey ` set answer))
   \<and> (map_has pk (burnerWallets m) \<longrightarrow>
        \<not> map_has pk (burnerWallets (disposeBurnerWallet pk m))
        \<and> burnerCooldowns (disposeBurnerWallet pk m) pk = None
        \<and> burnerTradeCount (disposeBurnerWallet pk m) pk = None
        \<and> burnerSeasoningCount (disposeBurnerWallet pk m) pk = None
        \<and> pk \<notin> pendingDisposal (disposeBurnerWallet pk m))"
proof -
  have a: "pk \<in> pendingDisposal m \<Longrightarrow>
      pk \<notin> ab_pubkey ` set (snd (getAvailableBurners cfg now base draws count emergency m))"
    by (rule excluded_not_returned) (simp add: excluded_def)
  have b: "map_has pk (burnerWallets m) \<Longrightarrow> pk \<in> pendingDisposal (scheduleBurnerDisposal pk m)"
    by (simp add: scheduleBurnerDisposal_def)
  have c: "pk \<in> pendingDisposal m \<Longrightarrow> \<not> creates pk ops \<Longrightarrow>
      \<forall>answer \<in> set (bm_answers cfg ops m). pk \<notin> ab_pubkey ` set answer"
    by (rule excluded_run) (simp_all add: excluded_def)
  have d: "map_has pk (burnerWallets m) \<Longrightarrow>
        \<not> map_has pk (burnerWallets (disposeBurnerWallet pk m))
        \<and> burnerCooldowns (disposeBurnerWallet pk m) pk = None
        \<and> burnerTradeCount (disposeBurnerWallet pk m) pk = None
        \<and> burnerSeasoningCount (disposeBurnerWallet pk m) pk = None
        \<and> pk \<notin> pendingDisposal (disposeBurnerWallet pk m)"
    by (simp add: disposeBurnerWallet_def forget_burner_def)
  show ?thesis
    apply (rule conjI, rule impI, erule a)
    apply (rule conjI, rule impI, erule b)
    apply (rule conjI, rule impI, erule conjE, erule (1) c)
    apply (rule impI, erule d)
    done
qed

theorem pending_burner_never_available_witness:
  "map_has ''A'' (burnerWallets two_burners)
   \<and> ''A'' \<in> pendingDisposal a_pending
   \<and> \<not> creates ''A'' [MarkUsed 50000 ''B'' 1, Query 100000 (\<lambda>pk. 30000) (\<lambda>i. 0) 2 False,
                        Create ''C'' 100000 True, Query 300000 (\<lambda>pk. 30000) (\<lambda>i. 0) 3 False]
   \<and> ''A'' \<notin> ab_pubkey ` set (concat (bm_answers cfg_bwc
            [MarkUsed 50000 ''B'' 1, Query 100000 (\<lambda>pk. 30000) (\<lambda>i. 0) 2 False,
             Create ''C'' 100000 True, Query 300000 (\<lambda>pk. 30000) (\<lambda>i. 0) 3 False] a_pending))
   \<and> ''A'' \<notin> ab_pubkey ` set (snd (getAvailableBurners cfg_bwc 100000 (\<lambda>pk. 30000) (\<lambda>i. 0) 2 False a_pending))"
proof -
  note first = pending_burner_never_available [of "''A''" two_burners]
  note inst = pending_burner_never_available [of "''A''" a_pending cfg_bwc 100000 "\<lambda>pk. 30000" "\<lambda>i. 0" 2 False
      "[MarkUsed 50000 ''B'' 1, Query 100000 (\<lambda>pk. 30000) (\<lambda>i. 0) 2 False,
        Create ''C'' 100000 True, Query 300000 (\<lambda>pk. 30000) (\<lambda>i. 0) 3 False]"]
  have h1: "map_has ''A'' (burnerWallets two_burners)"
    by (simp add: two_burners_eval map_has_def)
  from first h1 have h2: "''A'' \<in> pendingDisposal a_pending"
    unfolding a_pending_def by blast
  have h3: "\<not> creates ''A'' [MarkUsed 50000 ''B'' 1, Query 100000 (\<lambda>pk. 30000) (\<lambda>i. 0) 2 False,
                        Create ''C'' 100000 True, Query 300000 (\<lambda>pk. 30000) (\<lambda>i. 0) 3 False]"
    by (simp add: creates_def)
  from inst h2 h3 have "\<forall>answer \<in> set (bm_answers cfg_bwc
            [MarkUsed 50000 ''B'' 1, Query 100000 (\<lambda>pk. 30000) (\<lambda>i. 0) 2 False,
             Create ''C'' 100000 True, Query 300000 (\<lambda>pk. 30000) (\<lambda>i. 0) 3 False] a_pending).
         ''A'' \<notin> ab_pubkey ` set answer"
    by blast
  then have c1: "''A'' \<notin> ab_pubkey ` set (concat (bm_answers cfg_bwc
            [MarkUsed 50000 ''B'' 1, Query 100000 (\<lambda>pk. 30000) (\<lambda>i. 0) 2 False,
             Create ''C'' 100000 True, Query 300000 (\<lambda>pk. 30000) (\<lambda>i. 0) 3 False] a_pending))"
    by auto
  from inst h2 have c2: "''A'' \<notin> ab_pubkey ` set (snd (getAvailableBurners cfg_bwc 100000 (\<lambda>pk. 30000) (\<lambda>i. 0) 2 False a_pending))"
    by blast
  from h1 h2 h3 c1 c2 show ?thesis
    by blast
qed

section \<open>Properties of the funding\<close>

text \<open>
  Claim C6 on \<open>fundBurnerWallet\<close>: with a relayer that holds the amount, a transfer
  that is sent and a confirmation that times out, the function returns \<open>true\<close> after
  three calls to the node: the balance of the relayer, the transfer, the confirmation.
  Neither the status of the signature nor the balance of the burner is read, and
  \<open>createBurnerWallet\<close> keeps the burner as funded.
\<close>

theorem fundBurnerWallet_unverified:
  "confirmTransaction_reply net_timeout 2 = NotConfirmed
   \<and> fundBurnerWallet cfg_bwc net_timeout [''R''] ''burner'' []
       = ([CallGetBalance ''R'', CallSendTransaction ''R'' ''burner'' 20000000,
           CallConfirmTransaction ''sig''], True)
   \<and> map_has ''burner''
        (burnerWallets (fst (createBurnerWallet ''burner'' 0
           (snd (fundBurnerWallet cfg_bwc net_timeout [''R''] ''burner'' [])) bm_constructor)))"
  by (simp add: fundBurnerWallet_def net_timeout_def cfg_bwc_def estimatedFee_def
        PRIORITY_FEE_MICRO_LAMPORTS_def Let_def createBurnerWallet_def bm_constructor_def map_has_def)

theorem fundBurnerWallet_unverified_witness:
  "snd (fundBurnerWallet cfg_bwc net_timeout [''R''] ''burner'' [])
   \<and> CallGetSignatureStatus ''sig'' \<notin> set (fst (fundBurnerWallet cfg_bwc net_timeout [''R''] ''burner'' []))
   \<and> CallGetBalance ''burner'' \<notin> set (fst (fundBurnerWallet cfg_bwc net_timeout [''R''] ''burner'' []))"
  using fundBurnerWallet_unverified
  by simp

text \<open>The outcome of the confirmation has no part in the result of \<open>fundBurnerWallet\<close>.\<close>

lemma fundBurnerWallet_ignores_confirmation:
  "fundBurnerWallet cfg (net\<lparr>confirmTransaction_reply := c\<rparr>) relayers burner calls
     = fundBurnerWallet cfg net relayers burner calls"
proof -
  have same: "find_relayer (net\<lparr>confirmTransaction_reply := c\<rparr>) total candidates calls'
          = find_relayer net total candidates calls'" for total candidates calls'
    by (induction candidates arbitrary: calls') (auto simp: Let_def split: sum.splits)
  show ?thesis
    by (auto simp: fundBurnerWallet_def Let_def same
          split: list.splits prod.splits sum.splits option.splits)
qed

text \<open>
  \<open>fundSingleWallet\<close> does otherwise: a tranche counts as sent (\<open>txSuccess\<close>) only when
  a confirmation or a verification succeeded, so on a node that never confirms and
  never verifies, no attempt succeeds and the remainder stays what it was.
\<close>

lemma fund_attempts_need_confirmation:
  assumes "\<And>n. confirmTransaction_reply net n \<noteq> Confirmed"
    and "\<And>n sig recipient amount prior calls.
           snd (verifyTransaction net calls sig recipient amount prior) \<noteq> VerifiedSuccess"
  shows "snd (fund_attempts net relayer recipient cappedPart priorBalance left calls) = False"
proof (induction left arbitrary: calls)
  case 0
  then show ?case by simp
next
  case (Suc left)
  have never: "verifyTransaction net calls' sig r a p \<noteq> (calls'', VerifiedSuccess)"
    for calls' sig r a p calls''
    using assms(2) [of calls' sig r a p] by auto
  have unconfirmed: "confirmTransaction_reply net n \<noteq> Confirmed" for n
    by (rule assms(1))
  show ?case
    using Suc.IH unconfirmed
    by (auto simp: Let_def never split: option.splits sum.splits confirm_outcome.splits prod.splits)
qed

section \<open>Properties of concurrent funding\<close>

lemma lockKey_inj [simp]: "lockKey pk = lockKey pk' \<longleftrightarrow> pk = pk'"
  by (simp add: lockKey_def)

lemma lock_inv_init: "lock_inv (fund_init funded0 relayers batch)"
  by (auto simp: lock_inv_def fund_init_def)

lemma lock_inv_start:
  assumes "lock_inv s"
  shows "lock_inv (fund_step (Start i) s)"
proof (cases "task_is s i NotStarted")
  case False
  with assms show ?thesis by simp
next
  case True
  then have i: "i < length (sys_tasks s)" and ph: "snd (sys_tasks s ! i) = NotStarted"
    by (simp_all add: task_is_def)
  obtain pk where pk: "sys_tasks s ! i = (pk, NotStarted)"
    using ph by (cases "sys_tasks s ! i") auto
  show ?thesis
  proof (cases "acquire_lock pk (sys_manager s)")
    case None
    have "lock_inv (set_phase i Returned s)"
      using assms i pk
      unfolding lock_inv_def set_phase_def
      apply (simp add: nth_list_update)
      apply (metis Pair_inject task_phase.distinct(1))
      done
    with True None pk show ?thesis by simp
  next
    case (Some m)
    then have m: "m = (sys_manager s)\<lparr>fundingLocks := insert (lockKey pk) (fundingLocks (sys_manager s))\<rparr>"
      and free: "lockKey pk \<notin> fundingLocks (sys_manager s)"
      by (auto simp: acquire_lock_def split: if_splits)
    from free assms have none: "\<And>j. j < length (sys_tasks s) \<Longrightarrow> sys_tasks s ! j \<noteq> (pk, InFlight)"
      unfolding lock_inv_def by blast
    have "lock_inv (set_phase i InFlight (s\<lparr>sys_manager := m\<rparr>))"
      using assms i pk none
      unfolding lock_inv_def set_phase_def m
      apply (simp add: nth_list_update)
      apply (intro conjI allI impI)
      apply (metis Pair_inject task_phase.distinct(1))+
      done
    with True Some pk show ?thesis by simp
  qed
qed

lemma lock_inv_transfer: "lock_inv s \<Longrightarrow> lock_inv (fund_step (Transfer i) s)"
  by (simp add: lock_inv_def)

lemma lock_inv_finish:
  assumes "lock_inv s"
  shows "lock_inv (fund_step (Finish i marked) s)"
proof (cases "task_is s i InFlight")
  case False
  with assms show ?thesis by simp
next
  case True
  then have i: "i < length (sys_tasks s)" and ph: "snd (sys_tasks s ! i) = InFlight"
    by (simp_all add: task_is_def)
  obtain pk where pk: "sys_tasks s ! i = (pk, InFlight)"
    using ph by (cases "sys_tasks s ! i") auto
  from assms i pk have only: "\<And>j. j < length (sys_tasks s) \<Longrightarrow> sys_tasks s ! j = (pk, InFlight) \<Longrightarrow> j = i"
    unfolding lock_inv_def by blast
  define m where "m = (if marked then (sys_manager s)\<lparr>funded := insert pk (funded (sys_manager s))\<rparr>
                       else sys_manager s)"
  have locks: "fundingLocks (release_lock pk m) = fundingLocks (sys_manager s) - {lockKey pk}"
    by (simp add: release_lock_def m_def)
  have "lock_inv (set_phase i Returned (s\<lparr>sys_manager := release_lock pk m\<rparr>))"
    using assms i pk only
    unfolding lock_inv_def set_phase_def
    apply (simp add: nth_list_update locks)
    apply (intro conjI allI impI)
    apply (metis Pair_inject task_phase.distinct(5))+
    done
  with True pk show ?thesis
    by (simp add: Let_def m_def)
qed

lemma lock_inv_step: "lock_inv s \<Longrightarrow> lock_inv (fund_step e s)"
  by (cases e) (simp_all only: lock_inv_start lock_inv_transfer lock_inv_finish)

lemma lock_inv_run: "lock_inv s \<Longrightarrow> lock_inv (fund_run evs s)"
  unfolding fund_run_def
  by (induction evs arbitrary: s) (simp_all add: lock_inv_step)

lemma filter_at_most_one:
  assumes "distinct xs" "\<And>x y. x \<in> set xs \<Longrightarrow> y \<in> set xs \<Longrightarrow> P x \<Longrightarrow> P y \<Longrightarrow> x = y"
  shows "length (filter P xs) \<le> 1"
  using assms
proof (induction xs)
  case Nil
  then show ?case by simp
next
  case (Cons x xs)
  show ?case
  proof (cases "P x")
    case True
    have "filter P xs = []"
      using Cons.prems True by (auto simp: filter_empty_conv)
    with True show ?thesis by simp
  next
    case False
    with Cons show ?thesis by simp
  qed
qed

lemma in_flight_at_most_one: "lock_inv s \<Longrightarrow> length (in_flight s pk) \<le> 1"
  unfolding in_flight_def
  by (rule filter_at_most_one) (auto simp: lock_inv_def)

lemma in_flight_holds_lock:
  "lock_inv s \<Longrightarrow> lockKey pk \<in> fundingLocks (sys_manager s) \<longleftrightarrow> in_flight s pk \<noteq> []"
  by (auto simp: lock_inv_def in_flight_def filter_empty_conv)

lemma in_flight_single:
  assumes "lock_inv s" "task_is s i InFlight"
  shows "in_flight s (fst (sys_tasks s ! i)) = [i]"
proof -
  from assms(2) have "i \<in> set (in_flight s (fst (sys_tasks s ! i)))"
    by (auto simp: in_flight_def task_is_def intro: prod_eqI)
  with in_flight_at_most_one [OF assms(1), of "fst (sys_tasks s ! i)"] show ?thesis
    by (cases "in_flight s (fst (sys_tasks s ! i))") auto
qed

lemma start_when_locked:
  assumes "task_is s i NotStarted" "lockKey (fst (sys_tasks s ! i)) \<in> fundingLocks (sys_manager s)"
  shows "fund_step (Start i) s = set_phase i Returned s"
  using assms by (simp add: acquire_lock_def)

lemma transfer_only_in_flight:
  assumes "lock_inv s" "sys_transfers (fund_step e s) \<noteq> sys_transfers s"
  shows "\<exists>i. e = Transfer i \<and> in_flight s (fst (sys_tasks s ! i)) = [i]
             \<and> sys_transfers (fund_step e s) = sys_transfers s @ [(i, fst (sys_tasks s ! i))]"
proof (cases e)
  case (Start i)
  with assms(2) show ?thesis
    by (auto simp: set_phase_def split: if_splits option.splits)
next
  case (Transfer i)
  with assms(2) have "task_is s i InFlight"
    by (auto split: if_splits)
  with Transfer in_flight_single [OF assms(1)] show ?thesis
    by simp
next
  case (Finish i marked)
  with assms(2) show ?thesis
    by (auto simp: set_phase_def Let_def split: if_splits)
qed

text \<open>
  Claim C2. In every state reached by an interleaving of calls of \<open>fundSingleWallet\<close>
  from a manager without locks, at most one call is in flight for any wallet, and the
  lock of a wallet is held exactly while a call for it is in flight. A call started
  while the lock of its wallet is held returns at once: it only becomes \<open>Returned\<close>.
  A step that sends a transfer is a step of the one call in flight for that wallet.
\<close>

theorem funding_mutual_exclusion:
  "length (in_flight (fund_run evs (fund_init funded0 relayers batch)) pk) \<le> 1
   \<and> (lockKey pk \<in> fundingLocks (sys_manager (fund_run evs (fund_init funded0 relayers batch)))
        \<longleftrightarrow> in_flight (fund_run evs (fund_init funded0 relayers batch)) pk \<noteq> [])
   \<and> (task_is s i NotStarted \<and> lockKey (fst (sys_tasks s ! i)) \<in> fundingLocks (sys_manager s) \<longrightarrow>
        fund_step (Start i) s = set_phase i Returned s)
   \<and> (sys_transfers (fund_step e (fund_run evs (fund_init funded0 relayers batch)))
          \<noteq> sys_transfers (fund_run evs (fund_init funded0 relayers batch)) \<longrightarrow>
        (\<exists>j. e = Transfer j
          \<and> in_flight (fund_run evs (fund_init funded0 relayers batch))
               (fst (sys_tasks (fund_run evs (fund_init funded0 relayers batch)) ! j)) = [j]))"
proof -
  have inv: "lock_inv (fund_run evs (fund_init funded0 relayers batch))"
    by (rule lock_inv_run) (rule lock_inv_init)
  have d: "sys_transfers (fund_step e (fund_run evs (fund_init funded0 relayers batch)))
          \<noteq> sys_transfers (fund_run evs (fund_init funded0 relayers batch)) \<Longrightarrow>
        (\<exists>j. e = Transfer j
          \<and> in_flight (fund_run evs (fund_init funded0 relayers batch))
               (fst (sys_tasks (fund_run evs (fund_init funded0 relayers batch)) ! j)) = [j])"
    using transfer_only_in_flight [OF inv, of e] by blast
  show ?thesis
    apply (rule conjI, rule in_flight_at_most_one [OF inv])
    apply (rule conjI, rule in_flight_holds_lock [OF inv])
    apply (rule conjI, rule impI, erule conjE, erule (1) start_when_locked)
    apply (rule impI, erule d)
    done
qed

lemma first_started_eval:
  "first_started =
     \<lparr>sys_manager = \<lparr>funded = {}, fundingLocks = {lockKey ''W''}, relayerKeypairs = [''R'']\<rparr>,
      sys_tasks = [(''W'', InFlight), (''W'', NotStarted), (''V'', NotStarted)],
      sys_transfers = []\<rparr>"
  by (simp add: first_started_def two_passes_def fund_run_def fund_init_def task_is_def
        acquire_lock_def set_phase_def)

theorem funding_mutual_exclusion_witness:
  "task_is first_started 1 NotStarted
   \<and> lockKey (fst (sys_tasks first_started ! 1)) \<in> fundingLocks (sys_manager first_started)
   \<and> fund_step (Start 1) first_started = set_phase 1 Returned first_started
   \<and> sys_transfers (fund_step (Transfer 0) first_started) \<noteq> sys_transfers first_started
   \<and> in_flight first_started ''W'' = [0]
   \<and> sys_transfers (fund_step (Transfer 1) first_started) = sys_transfers first_started"
proof -
  note inst = funding_mutual_exclusion [of "[Start 0]" "{}" "[''R'']" "[''W'', ''W'', ''V'']" "''W''"
      first_started 1 "Transfer 0", folded two_passes_def first_started_def]
  have h1: "task_is first_started 1 NotStarted"
    by (simp add: first_started_eval task_is_def)
  have h2: "lockKey (fst (sys_tasks first_started ! 1)) \<in> fundingLocks (sys_manager first_started)"
    by (simp add: first_started_eval)
  have h3: "sys_transfers (fund_step (Transfer 0) first_started) \<noteq> sys_transfers first_started"
    by (simp add: first_started_eval task_is_def)
  have h4: "fst (sys_tasks first_started ! 0) = ''W''"
    by (simp add: first_started_eval)
  have h5: "sys_transfers (fund_step (Transfer 1) first_started) = sys_transfers first_started"
    by (simp add: first_started_eval task_is_def)
  from inst h1 h2 have c1: "fund_step (Start 1) first_started = set_phase 1 Returned first_started"
    by blast
  from inst h3 have "in_flight first_started (fst (sys_tasks first_started ! 0)) = [0]"
    by blast
  with h4 have c2: "in_flight first_started ''W'' = [0]"
    by simp
  from h1 h2 h3 h5 c1 c2 show ?thesis
    by blast
qed

text \<open>What a call in flight does to the locks when it leaves.\<close>

lemma finish_releases:
  assumes "task_is s i InFlight"
  shows "fundingLocks (sys_manager (fund_step (Finish i marked) s))
           = fundingLocks (sys_manager s) - {lockKey (fst (sys_tasks s ! i))}"
    and "task_is (fund_step (Finish i marked) s) i Returned"
  using assms
  by (simp_all add: Let_def set_phase_def release_lock_def task_is_def)

lemma lock_has_owner:
  assumes "lock_inv s" "k \<in> fundingLocks (sys_manager s)"
  shows "\<exists>j. task_is s j InFlight \<and> k = lockKey (fst (sys_tasks s ! j))"
proof -
  from assms obtain pk where k: "k = lockKey pk"
    unfolding lock_inv_def by blast
  with assms obtain j where "j < length (sys_tasks s)" "sys_tasks s ! j = (pk, InFlight)"
    unfolding lock_inv_def by blast
  then have "task_is s j InFlight \<and> k = lockKey (fst (sys_tasks s ! j))"
    by (simp add: task_is_def k)
  then show ?thesis ..
qed

lemma no_call_no_lock:
  assumes "lock_inv s" "\<forall>j < length (sys_tasks s). snd (sys_tasks s ! j) \<noteq> InFlight"
  shows "fundingLocks (sys_manager s) = {}"
proof (rule ccontr)
  assume "fundingLocks (sys_manager s) \<noteq> {}"
  then obtain k where "k \<in> fundingLocks (sys_manager s)"
    by blast
  from lock_has_owner [OF assms(1) this] assms(2) show False
    by (auto simp: task_is_def)
qed

lemma start_refused:
  assumes "task_is s i NotStarted" "acquire_lock (fst (sys_tasks s ! i)) (sys_manager s) = None"
  shows "sys_manager (fund_step (Start i) s) = sys_manager s"
  using assms by (simp add: set_phase_def)

lemma returned_without_lock:
  assumes "lock_inv s" "in_flight s pk = []"
  shows "lockKey pk \<notin> fundingLocks (sys_manager s)"
  using in_flight_holds_lock [OF assms(1), of pk] assms(2) by simp

text \<open>
  Claim C3. In every state reached by an interleaving of calls of \<open>fundSingleWallet\<close>
  from a manager without locks: when a call in flight leaves, however its \<open>try\<close> block
  ended (the wallet found funded, the tranches attempted with or without success, an
  exception caught), the entry of its wallet is absent from \<open>fundingLocks\<close> in the state
  right after, the call has returned, and no other entry has changed. No entry is ever
  stale: every entry of \<open>fundingLocks\<close> is the lock of a call that is in flight, a wallet
  without a call in flight has no entry, and when no call is in flight the set is empty.
  A call that returns at the guard leaves the manager as it is.
\<close>

theorem funding_lock_released:
  "(task_is (fund_run evs (fund_init funded0 relayers batch)) i InFlight \<longrightarrow>
      lockKey (fst (sys_tasks (fund_run evs (fund_init funded0 relayers batch)) ! i))
        \<notin> fundingLocks (sys_manager
             (fund_step (Finish i marked) (fund_run evs (fund_init funded0 relayers batch))))
      \<and> task_is (fund_step (Finish i marked) (fund_run evs (fund_init funded0 relayers batch))) i Returned
      \<and> fundingLocks (sys_manager
             (fund_step (Finish i marked) (fund_run evs (fund_init funded0 relayers batch))))
          = fundingLocks (sys_manager (fund_run evs (fund_init funded0 relayers batch)))
              - {lockKey (fst (sys_tasks (fund_run evs (fund_init funded0 relayers batch)) ! i))})
   \<and> (task_is (fund_run evs (fund_init funded0 relayers batch)) i InFlight \<longrightarrow>
        lockKey (fst (sys_tasks (fund_run evs (fund_init funded0 relayers batch)) ! i))
          \<notin> fundingLocks (sys_manager
               (fund_step (Finish i (marks_funded (fst (fund_try fundAmount net draws w
                     (relayerKeypairs (sys_manager (fund_run evs (fund_init funded0 relayers batch))))
                     calls))))
                  (fund_run evs (fund_init funded0 relayers batch)))))
   \<and> (k \<in> fundingLocks (sys_manager (fund_run evs (fund_init funded0 relayers batch))) \<longrightarrow>
        (\<exists>j. task_is (fund_run evs (fund_init funded0 relayers batch)) j InFlight
            \<and> k = lockKey (fst (sys_tasks (fund_run evs (fund_init funded0 relayers batch)) ! j))))
   \<and> (in_flight (fund_run evs (fund_init funded0 relayers batch)) pk = [] \<longrightarrow>
        lockKey pk \<notin> fundingLocks (sys_manager (fund_run evs (fund_init funded0 relayers batch))))
   \<and> ((\<forall>j < length (sys_tasks (fund_run evs (fund_init funded0 relayers batch))).
          snd (sys_tasks (fund_run evs (fund_init funded0 relayers batch)) ! j) \<noteq> InFlight) \<longrightarrow>
        fundingLocks (sys_manager (fund_run evs (fund_init funded0 relayers batch))) = {})
   \<and> (task_is (fund_run evs (fund_init funded0 relayers batch)) i NotStarted
        \<and> acquire_lock (fst (sys_tasks (fund_run evs (fund_init funded0 relayers batch)) ! i))
              (sys_manager (fund_run evs (fund_init funded0 relayers batch))) = None \<longrightarrow>
        sys_manager (fund_step (Start i) (fund_run evs (fund_init funded0 relayers batch)))
          = sys_manager (fund_run evs (fund_init funded0 relayers batch)))"
proof -
  define R where "R = fund_run evs (fund_init funded0 relayers batch)"
  have inv: "lock_inv R"
    unfolding R_def by (rule lock_inv_run) (rule lock_inv_init)
  have absent: "lockKey (fst (sys_tasks R ! i)) \<notin> fundingLocks (sys_manager (fund_step (Finish i b) R))"
    if "task_is R i InFlight" for b
    using finish_releases(1) [OF that, of b] by simp
  have a: "lockKey (fst (sys_tasks R ! i)) \<notin> fundingLocks (sys_manager (fund_step (Finish i marked) R))
      \<and> task_is (fund_step (Finish i marked) R) i Returned
      \<and> fundingLocks (sys_manager (fund_step (Finish i marked) R))
          = fundingLocks (sys_manager R) - {lockKey (fst (sys_tasks R ! i))}"
    if "task_is R i InFlight"
    using absent [OF that, of marked] finish_releases [OF that, of marked] by simp
  have "(task_is R i InFlight \<longrightarrow>
      lockKey (fst (sys_tasks R ! i)) \<notin> fundingLocks (sys_manager (fund_step (Finish i marked) R))
      \<and> task_is (fund_step (Finish i marked) R) i Returned
      \<and> fundingLocks (sys_manager (fund_step (Finish i marked) R))
          = fundingLocks (sys_manager R) - {lockKey (fst (sys_tasks R ! i))})
   \<and> (task_is R i InFlight \<longrightarrow>
        lockKey (fst (sys_tasks R ! i))
          \<notin> fundingLocks (sys_manager
               (fund_step (Finish i (marks_funded (fst (fund_try fundAmount net draws w
                     (relayerKeypairs (sys_manager R)) calls)))) R)))
   \<and> (k \<in> fundingLocks (sys_manager R) \<longrightarrow>
        (\<exists>j. task_is R j InFlight \<and> k = lockKey (fst (sys_tasks R ! j))))
   \<and> (in_flight R pk = [] \<longrightarrow> lockKey pk \<notin> fundingLocks (sys_manager R))
   \<and> ((\<forall>j < length (sys_tasks R). snd (sys_tasks R ! j) \<noteq> InFlight) \<longrightarrow>
        fundingLocks (sys_manager R) = {})
   \<and> (task_is R i NotStarted \<and> acquire_lock (fst (sys_tasks R ! i)) (sys_manager R) = None \<longrightarrow>
        sys_manager (fund_step (Start i) R) = sys_manager R)"
    apply (rule conjI, rule impI, erule a)
    apply (rule conjI, rule impI, erule absent)
    apply (rule conjI, rule impI, erule lock_has_owner [OF inv])
    apply (rule conjI, rule impI, erule returned_without_lock [OF inv])
    apply (rule conjI, rule impI, erule no_call_no_lock [OF inv])
    apply (rule impI, erule conjE, erule (1) start_refused)
    done
  then show ?thesis
    unfolding R_def .
qed

lemma first_returned_eval:
  "first_returned =
     \<lparr>sys_manager = \<lparr>funded = {''W''}, fundingLocks = {lockKey ''V''}, relayerKeypairs = [''R'']\<rparr>,
      sys_tasks = [(''W'', Returned), (''W'', NotStarted), (''V'', InFlight)],
      sys_transfers = []\<rparr>"
  by (auto simp: first_returned_def two_passes_def fund_run_def fund_init_def task_is_def
        acquire_lock_def release_lock_def set_phase_def Let_def lockKey_def)

lemma fund_try_exits:
  "fund_try 50000000 net_timeout one_part wallet_bad [''R''] [] = (Caught InvalidSecretKey, [])"
  "fund_try 50000000 net_timeout one_part wallet_W [''R''] [] = (AlreadyFunded, [CallGetBalance ''W''])"
  "fund_try 50000000 net_refusing one_part wallet_W [''R''] []
     = (TranchesAttempted 50000000,
        [CallGetBalance ''W'', CallSendTransaction ''R'' ''W'' 50000000,
         CallSendTransaction ''R'' ''W'' 50000000, CallSendTransaction ''R'' ''W'' 50000000])"
  by (simp_all add: fund_try_def wallet_bad_def wallet_W_def net_timeout_def net_refusing_def
        one_part_def bn_div_def bigint_div_def Let_def calculateFundingPart_def nth_opt_def
        MIN_SOL_BUFFER_LAMPORTS_BN_def numeral_3_eq_3)

theorem funding_lock_released_witness:
  "task_is first_started 0 InFlight
   \<and> lockKey ''W'' \<in> fundingLocks (sys_manager first_started)
   \<and> fst (fund_try 50000000 net_timeout one_part wallet_bad [''R''] []) = Caught InvalidSecretKey
   \<and> lockKey ''W'' \<notin> fundingLocks (sys_manager
         (fund_step (Finish 0 (marks_funded (Caught InvalidSecretKey))) first_started))
   \<and> fst (fund_try 50000000 net_refusing one_part wallet_W [''R''] []) = TranchesAttempted 50000000
   \<and> lockKey ''W'' \<notin> fundingLocks (sys_manager
         (fund_step (Finish 0 (marks_funded (TranchesAttempted 50000000))) first_started))
   \<and> fst (fund_try 50000000 net_timeout one_part wallet_W [''R''] []) = AlreadyFunded
   \<and> lockKey ''W'' \<notin> fundingLocks (sys_manager
         (fund_step (Finish 0 (marks_funded AlreadyFunded)) first_started))
   \<and> fundingLocks (sys_manager first_returned) = {lockKey ''V''}
   \<and> task_is first_returned 2 InFlight
   \<and> in_flight first_returned ''W'' = []
   \<and> fundingLocks (sys_manager (fund_step (Finish 2 False) first_returned)) = {}"
proof -
  note caught = funding_lock_released [of "[Start 0]" "{}" "[''R'']" "[''W'', ''W'', ''V'']" 0 False
      50000000 net_timeout one_part wallet_bad "[]", folded two_passes_def first_started_def]
  note failed = funding_lock_released [of "[Start 0]" "{}" "[''R'']" "[''W'', ''W'', ''V'']" 0 True
      50000000 net_refusing one_part wallet_W "[]", folded two_passes_def first_started_def]
  note funded = funding_lock_released [of "[Start 0]" "{}" "[''R'']" "[''W'', ''W'', ''V'']" 0 True
      50000000 net_timeout one_part wallet_W "[]", folded two_passes_def first_started_def]
  note later = funding_lock_released [of "[Start 0, Start 2, Finish 0 True]" "{}" "[''R'']"
      "[''W'', ''W'', ''V'']" 2 False 50000000 net_timeout one_part wallet_W "[]" "lockKey ''V''" "''W''",
      folded two_passes_def first_returned_def]
  have h1: "task_is first_started 0 InFlight"
    by (simp add: first_started_eval task_is_def)
  have h2: "lockKey ''W'' \<in> fundingLocks (sys_manager first_started)"
    by (simp add: first_started_eval)
  have pk: "fst (sys_tasks first_started ! 0) = ''W''"
    by (simp add: first_started_eval)
  have rel: "relayerKeypairs (sys_manager first_started) = [''R'']"
    by (simp add: first_started_eval)
  have e1: "fst (fund_try 50000000 net_timeout one_part wallet_bad [''R''] []) = Caught InvalidSecretKey"
    by (simp add: fund_try_exits)
  have e2: "fst (fund_try 50000000 net_refusing one_part wallet_W [''R''] []) = TranchesAttempted 50000000"
    by (simp add: fund_try_exits)
  have e3: "fst (fund_try 50000000 net_timeout one_part wallet_W [''R''] []) = AlreadyFunded"
    by (simp add: fund_try_exits)
  from caught h1 have c1: "lockKey ''W'' \<notin> fundingLocks (sys_manager
         (fund_step (Finish 0 (marks_funded (Caught InvalidSecretKey))) first_started))"
    unfolding pk rel e1 by blast
  from failed h1 have c2: "lockKey ''W'' \<notin> fundingLocks (sys_manager
         (fund_step (Finish 0 (marks_funded (TranchesAttempted 50000000))) first_started))"
    unfolding pk rel e2 by blast
  from funded h1 have c3: "lockKey ''W'' \<notin> fundingLocks (sys_manager
         (fund_step (Finish 0 (marks_funded AlreadyFunded)) first_started))"
    unfolding pk rel e3 by blast
  have h3: "fundingLocks (sys_manager first_returned) = {lockKey ''V''}"
    by (simp add: first_returned_eval)
  have h4: "task_is first_returned 2 InFlight"
    by (simp add: first_returned_eval task_is_def)
  have h5: "in_flight first_returned ''W'' = []"
    by (simp add: first_returned_eval in_flight_def upt_rec)
  have pk2: "fst (sys_tasks first_returned ! 2) = ''V''"
    by (simp add: first_returned_eval)
  from later h4 have "fundingLocks (sys_manager (fund_step (Finish 2 False) first_returned))
      = fundingLocks (sys_manager first_returned) - {lockKey ''V''}"
    unfolding pk2 by blast
  then have c4: "fundingLocks (sys_manager (fund_step (Finish 2 False) first_returned)) = {}"
    unfolding h3 by simp
  from h1 h2 e1 e2 e3 c1 c2 c3 h3 h4 h5 c4 show ?thesis
    by blast
qed

section \<open>Properties of the rebalancer\<close>

lemma p2p_pair_transfers:
  assumes "p2p_pair cfg sent pubkeys surplus needy st = Some st'"
  shows "transfers st' = transfers st
         \<or> (\<exists>t. transfers st' = transfers st @ [t] \<and> p2p_ok cfg pubkeys t
                 \<and> pt_needy t = needy \<and> pt_donor t = surplus ! surplusIndex st
                 \<and> pt_needy_balance t = balances st ! needy
                 \<and> pt_donor_balance t = balances st ! (surplus ! surplusIndex st))"
  using assms
  by (auto simp: p2p_pair_def Let_def p2p_ok_def split: if_splits)

lemma p2p_loop_transfers:
  "list_all (p2p_ok cfg pubkeys) (transfers st) \<Longrightarrow>
   list_all (p2p_ok cfg pubkeys) (transfers (p2p_loop cfg sent pubkeys surplus needys st))"
proof (induction needys arbitrary: st)
  case Nil
  then show ?case by simp
next
  case (Cons needy needys)
  show ?case
  proof (cases "p2p_pair cfg sent pubkeys surplus needy st")
    case None
    with Cons.prems show ?thesis by simp
  next
    case (Some st')
    from p2p_pair_transfers [OF Some] Cons.prems
    have "list_all (p2p_ok cfg pubkeys) (transfers st')"
      by auto
    from Cons.IH [OF this] Some show ?thesis by simp
  qed
qed

lemma p2p_funding_transfers:
  "list_all (p2p_ok cfg pubkeys) (transfers (p2p_funding cfg sent pubkeys bals))"
  by (simp add: p2p_funding_def Let_def p2p_loop_transfers)

text \<open>No transfer when the surplus of the donor is not larger than the deficit.\<close>

lemma p2p_pair_no_transfer:
  assumes "p2p_pair cfg sent pubkeys surplus needy st = Some st'"
    and "balances st ! (surplus ! surplusIndex st) - targetWalletBalanceLamports cfg
           \<le> targetWalletBalanceLamports cfg - balances st ! needy"
  shows "transfers st' = transfers st" and "balances st' = balances st"
  using assms
  by (auto simp: p2p_pair_def Let_def split: if_splits)

text \<open>After a pairing with another wallet, the donor is passed over exactly when its
  surplus is below the dust threshold.\<close>

lemma p2p_pair_advance:
  assumes "p2p_pair cfg sent pubkeys surplus needy st = Some st'"
    and "pubkeys ! (surplus ! surplusIndex st) \<noteq> pubkeys ! needy"
  shows "surplusIndex st' =
           (if balances st' ! (surplus ! surplusIndex st) - targetWalletBalanceLamports cfg
                 < dustThresholdLamports cfg
            then surplusIndex st + 1 else surplusIndex st)"
  using assms
  by (auto simp: p2p_pair_def Let_def split: if_splits)

lemma p2p_pair_self:
  assumes "p2p_pair cfg sent pubkeys surplus needy st = Some st'"
    and "pubkeys ! (surplus ! surplusIndex st) = pubkeys ! needy"
  shows "st' = st"
  using assms
  by (auto simp: p2p_pair_def Let_def split: if_splits)

text \<open>A pairing with another wallet whose surplus is larger than the deficit attempts
  the transfer of the deficit; when it is sent and confirmed the two balance fields
  move by it, otherwise they stay.\<close>

lemma p2p_pair_transfer:
  assumes "surplusIndex st < length surplus"
    and "pubkeys ! (surplus ! surplusIndex st) \<noteq> pubkeys ! needy"
    and "targetWalletBalanceLamports cfg - balances st ! needy
           < balances st ! (surplus ! surplusIndex st) - targetWalletBalanceLamports cfg"
  shows "\<exists>st'. p2p_pair cfg sent pubkeys surplus needy st = Some st'
           \<and> transfers st' = transfers st @
                [\<lparr>pt_donor = surplus ! surplusIndex st, pt_needy = needy,
                  pt_amount = targetWalletBalanceLamports cfg - balances st ! needy,
                  pt_donor_balance = balances st ! (surplus ! surplusIndex st),
                  pt_needy_balance = balances st ! needy,
                  pt_confirmed = sent (surplus ! surplusIndex st) needy
                                   (targetWalletBalanceLamports cfg - balances st ! needy)\<rparr>]
           \<and> balances st' =
                (if sent (surplus ! surplusIndex st) needy
                      (targetWalletBalanceLamports cfg - balances st ! needy)
                 then (balances st)
                        [surplus ! surplusIndex st :=
                           balances st ! (surplus ! surplusIndex st)
                             - (targetWalletBalanceLamports cfg - balances st ! needy),
                         needy := targetWalletBalanceLamports cfg]
                 else balances st)"
  using assms
  by (simp add: p2p_pair_def Let_def)

lemma p2p_pair_moves:
  assumes "surplusIndex st < length surplus"
    and "pubkeys ! (surplus ! surplusIndex st) \<noteq> pubkeys ! needy"
    and "targetWalletBalanceLamports cfg - balances st ! needy
           < balances st ! (surplus ! surplusIndex st) - targetWalletBalanceLamports cfg"
    and "sent (surplus ! surplusIndex st) needy (targetWalletBalanceLamports cfg - balances st ! needy)"
    and "surplus ! surplusIndex st < length (balances st)" "needy < length (balances st)"
    and "p2p_pair cfg sent pubkeys surplus needy st = Some st'"
  shows "balances st' ! (surplus ! surplusIndex st)
           = balances st ! (surplus ! surplusIndex st)
               - (targetWalletBalanceLamports cfg - balances st ! needy)"
    and "balances st' ! needy
           = balances st ! needy + (targetWalletBalanceLamports cfg - balances st ! needy)"
proof -
  from assms(2) have ne: "surplus ! surplusIndex st \<noteq> needy"
    by auto
  from p2p_pair_transfer [OF assms(1-3), of sent] assms(4,7)
  have "balances st' =
          (balances st)
            [surplus ! surplusIndex st :=
               balances st ! (surplus ! surplusIndex st)
                 - (targetWalletBalanceLamports cfg - balances st ! needy),
             needy := targetWalletBalanceLamports cfg]"
    by simp
  with ne assms(5,6) show "balances st' ! (surplus ! surplusIndex st)
           = balances st ! (surplus ! surplusIndex st)
               - (targetWalletBalanceLamports cfg - balances st ! needy)"
    and "balances st' ! needy
           = balances st ! needy + (targetWalletBalanceLamports cfg - balances st ! needy)"
    by simp_all
qed

text \<open>The amounts of the default configuration, in lamports.\<close>

lemma default_lamports:
  "to_lamports (SolNumber (fl (5 / 1000))) = 5000000"
  "to_lamports (SolNumber (fl (5 / 100))) = 50000000"
  "to_lamports (SolNumber (fl (1 / 1000))) = 1000000"
  unfolding to_lamports_def LAMPORTS_PER_SOL_def sol_amount.case
  by code_simp+

text \<open>An amount set in the environment is already in lamports when the constructor
  multiplies it: \<open>TARGET_WALLET_BALANCE_SOL=0.05\<close> gives a target of 50000000 SOL.\<close>

lemma env_lamports_scaled: "to_lamports (LamportsBN 50000000) = 50000000000000000"
  unfolding to_lamports_def LAMPORTS_PER_SOL_def sol_amount.case
  by code_simp

lemma rb_default_eval:
  "rb_default = \<lparr>enableRebalancing = True, minWalletBalanceLamports = 5000000,
                  targetWalletBalanceLamports = 50000000, dustThresholdLamports = 1000000\<rparr>"
  unfolding rb_default_def rb_constructor_def default_rebalancing_def
  by (simp only: rebalancing_config.select_convs default_lamports)

text \<open>
  Claim C5, as the code has it. Every transfer attempted by the pairing loop has the
  deficit of the needy wallet (target minus its balance) as its amount, is made only
  when the surplus of the donor (its balance minus target) is larger than that deficit,
  so that the amount is the lesser of the two and never exceeds it, and goes between
  wallets with different keys. In a pairing with another wallet whose surplus is larger
  than the deficit, the transfer of the deficit is attempted, and when it is sent and
  confirmed the balance of the donor goes down and that of the needy wallet goes up by
  it. When the surplus of the donor is not larger than the deficit, the pairing
  transfers nothing. A needy wallet that is itself the current donor is skipped. After a
  pairing with another wallet the donor is passed over exactly when its surplus is below
  the dust threshold.
\<close>

theorem p2p_transfer_is_deficit:
  "list_all (p2p_ok cfg pubkeys) (transfers (p2p_funding cfg sent pubkeys bals))
   \<and> (surplusIndex st < length surplus
        \<and> pubkeys ! (surplus ! surplusIndex st) \<noteq> pubkeys ! needy
        \<and> targetWalletBalanceLamports cfg - balances st ! needy
             < balances st ! (surplus ! surplusIndex st) - targetWalletBalanceLamports cfg \<longrightarrow>
        (\<exists>st2. p2p_pair cfg sent pubkeys surplus needy st = Some st2
           \<and> transfers st2 = transfers st @
                [\<lparr>pt_donor = surplus ! surplusIndex st, pt_needy = needy,
                  pt_amount = targetWalletBalanceLamports cfg - balances st ! needy,
                  pt_donor_balance = balances st ! (surplus ! surplusIndex st),
                  pt_needy_balance = balances st ! needy,
                  pt_confirmed = sent (surplus ! surplusIndex st) needy
                                   (targetWalletBalanceLamports cfg - balances st ! needy)\<rparr>]
           \<and> balances st2 =
                (if sent (surplus ! surplusIndex st) needy
                      (targetWalletBalanceLamports cfg - balances st ! needy)
                 then (balances st)
                        [surplus ! surplusIndex st :=
                           balances st ! (surplus ! surplusIndex st)
                             - (targetWalletBalanceLamports cfg - balances st ! needy),
                         needy := targetWalletBalanceLamports cfg]
                 else balances st)))
   \<and> (surplusIndex st < length surplus
        \<and> pubkeys ! (surplus ! surplusIndex st) \<noteq> pubkeys ! needy
        \<and> targetWalletBalanceLamports cfg - balances st ! needy
             < balances st ! (surplus ! surplusIndex st) - targetWalletBalanceLamports cfg
        \<and> sent (surplus ! surplusIndex st) needy (targetWalletBalanceLamports cfg - balances st ! needy)
        \<and> surplus ! surplusIndex st < length (balances st) \<and> needy < length (balances st)
        \<and> p2p_pair cfg sent pubkeys surplus needy st = Some st' \<longrightarrow>
        balances st' ! (surplus ! surplusIndex st)
           = balances st ! (surplus ! surplusIndex st)
               - (targetWalletBalanceLamports cfg - balances st ! needy)
        \<and> balances st' ! needy
           = balances st ! needy + (targetWalletBalanceLamports cfg - balances st ! needy))
   \<and> (p2p_pair cfg sent pubkeys surplus needy st = Some st'
        \<and> balances st ! (surplus ! surplusIndex st) - targetWalletBalanceLamports cfg
             \<le> targetWalletBalanceLamports cfg - balances st ! needy \<longrightarrow>
        transfers st' = transfers st \<and> balances st' = balances st)
   \<and> (p2p_pair cfg sent pubkeys surplus needy st = Some st'
        \<and> pubkeys ! (surplus ! surplusIndex st) = pubkeys ! needy \<longrightarrow> st' = st)
   \<and> (p2p_pair cfg sent pubkeys surplus needy st = Some st'
        \<and> pubkeys ! (surplus ! surplusIndex st) \<noteq> pubkeys ! needy \<longrightarrow>
        surplusIndex st' =
           (if balances st' ! (surplus ! surplusIndex st) - targetWalletBalanceLamports cfg
                 < dustThresholdLamports cfg
            then surplusIndex st + 1 else surplusIndex st))"
proof -
  have moves: "balances st' ! (surplus ! surplusIndex st)
           = balances st ! (surplus ! surplusIndex st)
               - (targetWalletBalanceLamports cfg - balances st ! needy)
        \<and> balances st' ! needy
           = balances st ! needy + (targetWalletBalanceLamports cfg - balances st ! needy)"
    if "surplusIndex st < length surplus"
      and "pubkeys ! (surplus ! surplusIndex st) \<noteq> pubkeys ! needy"
      and "targetWalletBalanceLamports cfg - balances st ! needy
             < balances st ! (surplus ! surplusIndex st) - targetWalletBalanceLamports cfg"
      and "sent (surplus ! surplusIndex st) needy (targetWalletBalanceLamports cfg - balances st ! needy)"
      and "surplus ! surplusIndex st < length (balances st)" "needy < length (balances st)"
      and "p2p_pair cfg sent pubkeys surplus needy st = Some st'"
    using p2p_pair_moves [OF that] by simp
  show ?thesis
    apply (rule conjI, rule p2p_funding_transfers)
    apply (rule conjI, rule impI, (erule conjE)+, erule (2) p2p_pair_transfer)
    apply (rule conjI, rule impI, (erule conjE)+, erule (6) moves)
    apply (rule conjI, rule impI, erule conjE, rule conjI)
      apply (erule (1) p2p_pair_no_transfer(1), erule (1) p2p_pair_no_transfer(2))
    apply (rule conjI, rule impI, erule conjE, erule (1) p2p_pair_self)
    apply (rule impI, erule conjE, erule (1) p2p_pair_advance)
    done
qed

text \<open>The claim itself fails where the donor has less to spare than the needy wallet
  lacks: with the default configuration (target 0.05 SOL, floor 0.005 SOL), a wallet at
  0.001 SOL and a donor at 0.08 SOL, the lesser of deficit (0.049) and surplus (0.03) is
  0.03 SOL, and nothing is transferred.\<close>

theorem p2p_lesser_amount_counterexample:
  "needsFunding rb_default [1000000, 80000000] = [0]
   \<and> hasSurplus rb_default [1000000, 80000000] = [1]
   \<and> min (targetWalletBalanceLamports rb_default - 1000000)
          (80000000 - targetWalletBalanceLamports rb_default) = 30000000
   \<and> transfers (p2p_funding rb_default (\<lambda>donor needy amount. True) [''N'', ''D''] [1000000, 80000000]) = []"
  by (simp add: p2p_funding_def needsFunding_def hasSurplus_def rb_default_eval upt_rec bn_div_def
        bigint_div_def p2p_pair_def Let_def)

theorem p2p_transfer_is_deficit_witness:
  "surplusIndex (p2p_start [1000000, 200000000]) < length [1::nat]
   \<and> [''N'', ''D''] ! ([1] ! surplusIndex (p2p_start [1000000, 200000000])) \<noteq> [''N'', ''D''] ! 0
   \<and> targetWalletBalanceLamports rb_default - balances (p2p_start [1000000, 200000000]) ! 0
       < balances (p2p_start [1000000, 200000000]) ! ([1] ! surplusIndex (p2p_start [1000000, 200000000]))
           - targetWalletBalanceLamports rb_default
   \<and> p2p_pair rb_default (\<lambda>donor needy amount. True) [''N'', ''D''] [1] 0 (p2p_start [1000000, 200000000])
     = Some \<lparr>balances = [50000000, 151000000], surplusIndex = 0,
             transfers = [\<lparr>pt_donor = 1, pt_needy = 0, pt_amount = 49000000,
                           pt_donor_balance = 200000000, pt_needy_balance = 1000000,
                           pt_confirmed = True\<rparr>]\<rparr>
   \<and> p2p_pair rb_default (\<lambda>donor needy amount. True) [''N'', ''D''] [1] 0 (p2p_start [1000000, 80000000])
       = Some (p2p_start [1000000, 80000000])
   \<and> transfers (p2p_funding rb_default (\<lambda>donor needy amount. True) [''N'', ''D''] [1000000, 200000000])
       = [\<lparr>pt_donor = 1, pt_needy = 0, pt_amount = 49000000,
            pt_donor_balance = 200000000, pt_needy_balance = 1000000, pt_confirmed = True\<rparr>]
   \<and> p2p_ok rb_default [''N'', ''D'']
        \<lparr>pt_donor = 1, pt_needy = 0, pt_amount = 49000000,
           pt_donor_balance = 200000000, pt_needy_balance = 1000000, pt_confirmed = True\<rparr>"
  using p2p_transfer_is_deficit [of rb_default "[''N'', ''D'']" "\<lambda>donor needy amount. True"
      "[1000000, 200000000]" "p2p_start [1000000, 200000000]" "[1]" 0
      "\<lparr>balances = [50000000, 151000000], surplusIndex = 0,
             transfers = [\<lparr>pt_donor = 1, pt_needy = 0, pt_amount = 49000000,
                           pt_donor_balance = 200000000, pt_needy_balance = 1000000,
                           pt_confirmed = True\<rparr>]\<rparr>"]
    p2p_transfer_is_deficit [of rb_default "[''N'', ''D'']" "\<lambda>donor needy amount. True"
      "[1000000, 80000000]" "p2p_start [1000000, 80000000]" "[1]" 0 "p2p_start [1000000, 80000000]"]
  by (simp add: p2p_funding_def needsFunding_def hasSurplus_def rb_default_eval upt_rec bn_div_def
        bigint_div_def p2p_pair_def Let_def p2p_start_def)

lemma consolidate_sound:
  assumes "t \<in> set (consolidateSurplusToSink cfg random sunk ws)"
  shows "\<exists>b. (sk_wallet t, b) \<in> set ws
           \<and> b - targetWalletBalanceLamports cfg > dustThresholdLamports cfg
           \<and> sk_amount t
                = bn_div ((b - targetWalletBalanceLamports cfg) * sink_pct (random (sk_wallet t))) 100
           \<and> sk_amount t \<ge> dustThresholdLamports cfg"
  using assms
proof (induction ws)
  case Nil
  then show ?case by simp
next
  case (Cons e ws)
  obtain w b where e: "e = (w, b)" by (cases e)
  from Cons show ?case
    unfolding e by (auto simp: Let_def split: if_splits)
qed

lemma consolidate_complete:
  assumes "(w, b) \<in> set ws"
    and "b - targetWalletBalanceLamports cfg > dustThresholdLamports cfg"
    and "bn_div ((b - targetWalletBalanceLamports cfg) * sink_pct (random w)) 100
           \<ge> dustThresholdLamports cfg"
  shows "\<exists>t \<in> set (consolidateSurplusToSink cfg random sunk ws).
           sk_wallet t = w
           \<and> sk_amount t = bn_div ((b - targetWalletBalanceLamports cfg) * sink_pct (random w)) 100"
  using assms
proof (induction ws)
  case Nil
  then show ?case by simp
next
  case (Cons e ws)
  obtain w' b' where e: "e = (w', b')" by (cases e)
  from Cons show ?case
    unfolding e by (auto simp: Let_def split: if_splits)
qed

lemma remainingSurplus_iff:
  "(w, b) \<in> set (remainingSurplus cfg surplusList bals) \<longleftrightarrow>
     w \<in> set surplusList \<and> b = bals ! w
     \<and> bals ! w > bn_div (targetWalletBalanceLamports cfg * 11) 10"
  by (auto simp: remainingSurplus_def)

lemma hasSurplus_iff:
  "w \<in> set (hasSurplus cfg bals) \<longleftrightarrow>
     w < length bals \<and> bals ! w > bn_div (targetWalletBalanceLamports cfg * 3) 2"
  by (auto simp: hasSurplus_def)

lemma bn_div_nonneg: "0 \<le> a \<Longrightarrow> 0 < b \<Longrightarrow> bn_div a b = a div b"
  by (cases "a = 0") (simp_all add: bn_div_def bigint_div_def)

text \<open>The percentage drawn: the rounding is monotone, so the percentage lies between
  its values at the two ends of the range of \<open>Math.random()\<close>, which are 90 and 98.\<close>

lemma sink_pct_ends:
  "\<lfloor>fl (fl (fl (9 / 10) + fl 0) * 100)\<rfloor> = 90"
  "\<lfloor>fl (fl (fl (9 / 10) + fl (fl (8 / 100))) * 100)\<rfloor> = 98"
  by code_simp+

lemma sink_pct_bounds:
  assumes "0 \<le> r" "r \<le> 1"
  shows "90 \<le> sink_pct r" and "sink_pct r \<le> 98"
proof -
  define c where "c = fl (8 / 100)"
  define a where "a = fl (9 / 10)"
  define x where "x = fl (r * c)"
  have c: "0 \<le> c"
    unfolding c_def by (rule fl_nonneg) simp
  have a: "0 \<le> a"
    unfolding a_def by (rule fl_nonneg) simp
  have rc: "0 \<le> r * c" "r * c \<le> c"
    using assms c by (simp_all add: mult_left_le_one_le)
  have x: "fl 0 \<le> x" "x \<le> fl c"
    unfolding x_def using rc by (simp_all add: fl_mono)
  have x0: "0 \<le> x"
    unfolding x_def using rc(1) by (rule fl_nonneg)
  have f0: "0 \<le> fl 0"
    by (rule fl_nonneg) simp
  have "fl (a + fl 0) \<le> fl (a + x)" "fl (a + x) \<le> fl (a + fl c)"
    using a x x0 f0 by (simp_all add: fl_mono)
  moreover have "0 \<le> fl (a + fl 0)" "0 \<le> fl (a + x)"
    using a x0 f0 by (simp_all add: fl_nonneg)
  ultimately have "fl (fl (a + fl 0) * 100) \<le> fl (fl (a + x) * 100)"
    "fl (fl (a + x) * 100) \<le> fl (fl (a + fl c) * 100)"
    by (simp_all add: fl_mono)
  then have "\<lfloor>fl (fl (a + fl 0) * 100)\<rfloor> \<le> \<lfloor>fl (fl (a + x) * 100)\<rfloor>"
    "\<lfloor>fl (fl (a + x) * 100)\<rfloor> \<le> \<lfloor>fl (fl (a + fl c) * 100)\<rfloor>"
    by (simp_all add: floor_mono)
  then show "90 \<le> sink_pct r" and "sink_pct r \<le> 98"
    unfolding sink_pct_def Let_def a_def c_def x_def sink_pct_ends by simp_all
qed

lemma sink_pct_half: "sink_pct 0 = 90" "sink_pct (1 / 2) = 94"
  unfolding sink_pct_def Let_def
  by code_simp+

lemma retention_bounds:
  assumes "0 \<le> surplus" "90 \<le> p" "p \<le> 98"
  shows "2 * surplus \<le> 100 * (surplus - bn_div (surplus * p) 100)"
    and "100 * (surplus - bn_div (surplus * p) 100) \<le> 10 * surplus + 99"
proof -
  define x where "x = surplus * p"
  define d where "d = x div 100"
  have nn: "0 \<le> x"
    unfolding x_def using assms by simp
  have eq: "bn_div (surplus * p) 100 = d"
    unfolding d_def x_def [symmetric] using nn by (simp add: bn_div_nonneg)
  have "x \<le> surplus * 98"
    unfolding x_def using assms by (intro mult_left_mono) simp_all
  moreover have "100 * d \<le> x"
    unfolding d_def by simp
  ultimately have up: "100 * d \<le> 98 * surplus"
    by linarith
  have "surplus * 90 \<le> x"
    unfolding x_def using assms by (intro mult_left_mono) simp_all
  then have low: "90 * surplus \<le> x"
    by simp
  have "x = 100 * d + x mod 100"
    unfolding d_def by simp
  moreover have "x mod 100 \<le> 99"
    using pos_mod_bound [of 100 x] by simp
  ultimately have rem: "x \<le> 100 * d + 99"
    by linarith
  from up show "2 * surplus \<le> 100 * (surplus - bn_div (surplus * p) 100)"
    unfolding eq by (simp add: algebra_simps)
  from low rem show "100 * (surplus - bn_div (surplus * p) 100) \<le> 10 * surplus + 99"
    unfolding eq by (simp add: algebra_simps)
qed

lemma rebalance_result:
  assumes "enableRebalancing cfg" "relayers \<noteq> []" "2 \<le> length activeWallets"
    and "snapshot gb activeWallets = Inr bals"
  shows "rebalanceWallets cfg gb sent random sunk relayers sinkKeypair activeWallets =
           Inr (transfers (p2p_funding cfg sent activeWallets bals),
                if sinkKeypair \<noteq> None
                then consolidateSurplusToSink cfg random sunk
                       (remainingSurplus cfg (hasSurplus cfg bals)
                          (balances (p2p_funding cfg sent activeWallets bals)))
                else [])"
  using assms
  by (cases "remainingSurplus cfg (hasSurplus cfg bals)
               (balances (p2p_funding cfg sent activeWallets bals))")
     (auto simp: rebalanceWallets_def Let_def)

lemma rebalance_sinks:
  assumes "rebalanceWallets cfg gb sent random sunk relayers sinkKeypair activeWallets = Inr (p2p, sinks)"
    and "snapshot gb activeWallets = Inr bals"
    and "t \<in> set sinks"
  shows "sinkKeypair \<noteq> None \<and> enableRebalancing cfg \<and> relayers \<noteq> [] \<and> 2 \<le> length activeWallets
         \<and> t \<in> set (consolidateSurplusToSink cfg random sunk
                       (remainingSurplus cfg (hasSurplus cfg bals)
                          (balances (p2p_funding cfg sent activeWallets bals))))"
  using assms
  by (auto simp: rebalanceWallets_def Let_def split: if_splits)

text \<open>What holds of a transfer to the sink.\<close>

lemma sink_transfer_sound:
  assumes r: "rebalanceWallets cfg gb sent random sunk relayers sinkKeypair activeWallets = Inr (p2p, sinks)"
    and s: "snapshot gb activeWallets = Inr bals" and t: "t \<in> set sinks"
  shows "sinkKeypair \<noteq> None
      \<and> sk_wallet t < length bals
      \<and> bals ! sk_wallet t > bn_div (targetWalletBalanceLamports cfg * 3) 2
      \<and> balances (p2p_funding cfg sent activeWallets bals) ! sk_wallet t
           > bn_div (targetWalletBalanceLamports cfg * 11) 10
      \<and> balances (p2p_funding cfg sent activeWallets bals) ! sk_wallet t
           - targetWalletBalanceLamports cfg > dustThresholdLamports cfg
      \<and> sk_amount t =
           bn_div ((balances (p2p_funding cfg sent activeWallets bals) ! sk_wallet t
                      - targetWalletBalanceLamports cfg) * sink_pct (random (sk_wallet t))) 100
      \<and> sk_amount t \<ge> dustThresholdLamports cfg"
proof -
  define final where "final = balances (p2p_funding cfg sent activeWallets bals)"
  define target where "target = targetWalletBalanceLamports cfg"
  from rebalance_sinks [OF r s t]
  have sink: "sinkKeypair \<noteq> None"
    and made: "t \<in> set (consolidateSurplusToSink cfg random sunk
                     (remainingSurplus cfg (hasSurplus cfg bals) final))"
    unfolding final_def by simp_all
  from consolidate_sound [OF made] obtain b where
    b: "(sk_wallet t, b) \<in> set (remainingSurplus cfg (hasSurplus cfg bals) final)"
    and over: "b - target > dustThresholdLamports cfg"
    and amount: "sk_amount t = bn_div ((b - target) * sink_pct (random (sk_wallet t))) 100"
    and dust: "sk_amount t \<ge> dustThresholdLamports cfg"
    unfolding target_def by blast
  from b have inlist: "sk_wallet t \<in> set (hasSurplus cfg bals)" and bal: "b = final ! sk_wallet t"
    and above: "final ! sk_wallet t > bn_div (target * 11) 10"
    unfolding target_def by (simp_all add: remainingSurplus_iff)
  from inlist have "sk_wallet t < length bals" "bals ! sk_wallet t > bn_div (target * 3) 2"
    unfolding target_def by (simp_all add: hasSurplus_iff)
  with sink over amount dust above
  have "sinkKeypair \<noteq> None
    \<and> sk_wallet t < length bals
    \<and> bals ! sk_wallet t > bn_div (target * 3) 2
    \<and> final ! sk_wallet t > bn_div (target * 11) 10
    \<and> final ! sk_wallet t - target > dustThresholdLamports cfg
    \<and> sk_amount t = bn_div ((final ! sk_wallet t - target) * sink_pct (random (sk_wallet t))) 100
    \<and> sk_amount t \<ge> dustThresholdLamports cfg"
    unfolding bal by simp
  then show ?thesis
    unfolding final_def target_def .
qed

text \<open>The part retained, for a number drawn in the range of \<open>Math.random()\<close>.\<close>

lemma sink_transfer_retention:
  assumes r: "rebalanceWallets cfg gb sent random sunk relayers sinkKeypair activeWallets = Inr (p2p, sinks)"
    and s: "snapshot gb activeWallets = Inr bals" and t: "t \<in> set sinks"
    and draw: "0 \<le> random (sk_wallet t)" "random (sk_wallet t) < 1"
    and dust: "0 \<le> dustThresholdLamports cfg"
  shows "90 \<le> sink_pct (random (sk_wallet t)) \<and> sink_pct (random (sk_wallet t)) \<le> 98
      \<and> 0 \<le> balances (p2p_funding cfg sent activeWallets bals) ! sk_wallet t
               - targetWalletBalanceLamports cfg - sk_amount t
      \<and> 2 * (balances (p2p_funding cfg sent activeWallets bals) ! sk_wallet t
               - targetWalletBalanceLamports cfg)
          \<le> 100 * (balances (p2p_funding cfg sent activeWallets bals) ! sk_wallet t
                      - targetWalletBalanceLamports cfg - sk_amount t)
      \<and> 100 * (balances (p2p_funding cfg sent activeWallets bals) ! sk_wallet t
                  - targetWalletBalanceLamports cfg - sk_amount t)
          \<le> 10 * (balances (p2p_funding cfg sent activeWallets bals) ! sk_wallet t
                     - targetWalletBalanceLamports cfg) + 99"
proof -
  define excess where
    "excess = balances (p2p_funding cfg sent activeWallets bals) ! sk_wallet t
                - targetWalletBalanceLamports cfg"
  from sink_transfer_sound [OF r s t]
  have over: "excess > dustThresholdLamports cfg"
    and amount: "sk_amount t = bn_div (excess * sink_pct (random (sk_wallet t))) 100"
    unfolding excess_def by simp_all
  from over dust have nn: "0 \<le> excess"
    by simp
  have pct: "90 \<le> sink_pct (random (sk_wallet t))" "sink_pct (random (sk_wallet t)) \<le> 98"
    using sink_pct_bounds [of "random (sk_wallet t)"] draw by simp_all
  from retention_bounds [OF nn pct] nn
  have "0 \<le> excess - sk_amount t"
    "2 * excess \<le> 100 * (excess - sk_amount t)"
    "100 * (excess - sk_amount t) \<le> 10 * excess + 99"
    unfolding amount by simp_all
  with pct show ?thesis
    unfolding excess_def by simp
qed

lemma sink_transfer_complete:
  assumes run: "enableRebalancing cfg" "relayers \<noteq> []" "2 \<le> length activeWallets"
        "snapshot gb activeWallets = Inr bals"
    and sink: "sinkKeypair \<noteq> None"
    and w: "w < length bals" "bals ! w > bn_div (targetWalletBalanceLamports cfg * 3) 2"
      "balances (p2p_funding cfg sent activeWallets bals) ! w
         > bn_div (targetWalletBalanceLamports cfg * 11) 10"
    and over: "balances (p2p_funding cfg sent activeWallets bals) ! w
         - targetWalletBalanceLamports cfg > dustThresholdLamports cfg"
    and dust: "bn_div ((balances (p2p_funding cfg sent activeWallets bals) ! w
                      - targetWalletBalanceLamports cfg) * sink_pct (random w)) 100
         \<ge> dustThresholdLamports cfg"
  shows "\<exists>made sunk_list.
            rebalanceWallets cfg gb sent random sunk relayers sinkKeypair activeWallets
              = Inr (made, sunk_list)
            \<and> (\<exists>t \<in> set sunk_list.
                  sk_wallet t = w
                  \<and> sk_amount t =
                      bn_div ((balances (p2p_funding cfg sent activeWallets bals) ! w
                                 - targetWalletBalanceLamports cfg) * sink_pct (random w)) 100)"
proof -
  define final where "final = balances (p2p_funding cfg sent activeWallets bals)"
  from w have "(w, final ! w) \<in> set (remainingSurplus cfg (hasSurplus cfg bals) final)"
    unfolding final_def by (simp add: remainingSurplus_iff hasSurplus_iff)
  from consolidate_complete [OF this, of cfg random sunk] over dust
  have "\<exists>t \<in> set (consolidateSurplusToSink cfg random sunk
                     (remainingSurplus cfg (hasSurplus cfg bals) final)).
         sk_wallet t = w
         \<and> sk_amount t = bn_div ((final ! w - targetWalletBalanceLamports cfg) * sink_pct (random w)) 100"
    unfolding final_def by simp
  with sink rebalance_result [OF run, of sent random sunk sinkKeypair]
  show ?thesis
    unfolding final_def by simp
qed

text \<open>
  Claim C9, as the code has it. The transfers to the sink are made for wallets of the
  surplus list only (balance above 3/2 of the target when the balances were read), and
  only with a sink: each such transfer is for a wallet whose balance after the pairing
  exceeds 11/10 of the target and whose excess over the target exceeds the dust
  threshold; its amount is that excess times the percentage drawn, divided by 100 and
  truncated, and is not below the dust threshold. The percentage is
  \<open>Math.floor((0.90 + Math.random() * 0.08) * 100)\<close>: for every number that
  \<open>Math.random()\<close> can return it lies between 90 and 98, so the part retained is at
  least 2 percent of the excess and at most 10 percent, up to the rounding to whole
  lamports. Conversely, when the rebalancing runs (enabled, a relayer, at least two
  active wallets, balances read) and a sink is set, every wallet of the surplus list in
  that situation gets its transfer.
\<close>

theorem surplus_consolidated_to_sink:
  "(rebalanceWallets cfg gb sent random sunk relayers sinkKeypair activeWallets = Inr (p2p, sinks)
      \<and> snapshot gb activeWallets = Inr bals \<and> t \<in> set sinks \<longrightarrow>
      sinkKeypair \<noteq> None
      \<and> sk_wallet t < length bals
      \<and> bals ! sk_wallet t > bn_div (targetWalletBalanceLamports cfg * 3) 2
      \<and> balances (p2p_funding cfg sent activeWallets bals) ! sk_wallet t
           > bn_div (targetWalletBalanceLamports cfg * 11) 10
      \<and> balances (p2p_funding cfg sent activeWallets bals) ! sk_wallet t
           - targetWalletBalanceLamports cfg > dustThresholdLamports cfg
      \<and> sk_amount t =
           bn_div ((balances (p2p_funding cfg sent activeWallets bals) ! sk_wallet t
                      - targetWalletBalanceLamports cfg) * sink_pct (random (sk_wallet t))) 100
      \<and> sk_amount t \<ge> dustThresholdLamports cfg)
   \<and> (rebalanceWallets cfg gb sent random sunk relayers sinkKeypair activeWallets = Inr (p2p, sinks)
        \<and> snapshot gb activeWallets = Inr bals \<and> t \<in> set sinks
        \<and> 0 \<le> random (sk_wallet t) \<and> random (sk_wallet t) < 1
        \<and> 0 \<le> dustThresholdLamports cfg \<longrightarrow>
        90 \<le> sink_pct (random (sk_wallet t)) \<and> sink_pct (random (sk_wallet t)) \<le> 98
        \<and> 0 \<le> balances (p2p_funding cfg sent activeWallets bals) ! sk_wallet t
                 - targetWalletBalanceLamports cfg - sk_amount t
        \<and> 2 * (balances (p2p_funding cfg sent activeWallets bals) ! sk_wallet t
                 - targetWalletBalanceLamports cfg)
            \<le> 100 * (balances (p2p_funding cfg sent activeWallets bals) ! sk_wallet t
                        - targetWalletBalanceLamports cfg - sk_amount t)
        \<and> 100 * (balances (p2p_funding cfg sent activeWallets bals) ! sk_wallet t
                    - targetWalletBalanceLamports cfg - sk_amount t)
            \<le> 10 * (balances (p2p_funding cfg sent activeWallets bals) ! sk_wallet t
                       - targetWalletBalanceLamports cfg) + 99)
   \<and> (0 \<le> r \<and> r < 1 \<longrightarrow> 90 \<le> sink_pct r \<and> sink_pct r \<le> 98)
   \<and> (enableRebalancing cfg \<and> relayers \<noteq> [] \<and> 2 \<le> length activeWallets
        \<and> snapshot gb activeWallets = Inr bals \<and> sinkKeypair \<noteq> None
        \<and> w < length bals \<and> bals ! w > bn_div (targetWalletBalanceLamports cfg * 3) 2
        \<and> balances (p2p_funding cfg sent activeWallets bals) ! w
             > bn_div (targetWalletBalanceLamports cfg * 11) 10
        \<and> balances (p2p_funding cfg sent activeWallets bals) ! w
             - targetWalletBalanceLamports cfg > dustThresholdLamports cfg
        \<and> bn_div ((balances (p2p_funding cfg sent activeWallets bals) ! w
                      - targetWalletBalanceLamports cfg) * sink_pct (random w)) 100
             \<ge> dustThresholdLamports cfg \<longrightarrow>
        (\<exists>made sunk_list.
            rebalanceWallets cfg gb sent random sunk relayers sinkKeypair activeWallets
              = Inr (made, sunk_list)
            \<and> (\<exists>t \<in> set sunk_list.
                  sk_wallet t = w
                  \<and> sk_amount t =
                      bn_div ((balances (p2p_funding cfg sent activeWallets bals) ! w
                                 - targetWalletBalanceLamports cfg) * sink_pct (random w)) 100)))"
proof -
  have pct: "90 \<le> sink_pct r \<and> sink_pct r \<le> 98" if "0 \<le> r" "r < 1"
    using sink_pct_bounds [of r] that by simp
  show ?thesis
    apply (rule conjI, rule impI, (erule conjE)+, erule (2) sink_transfer_sound)
    apply (rule conjI, rule impI, (erule conjE)+, erule (5) sink_transfer_retention)
    apply (rule conjI, rule impI, erule conjE, erule (1) pct)
    apply (rule impI, (erule conjE)+, erule (9) sink_transfer_complete)
    done
qed

text \<open>The claim itself fails for a wallet that was not in the surplus list: with the
  default configuration (target 0.05 SOL), a wallet at 0.065 SOL is above 11/10 of the
  target (0.055 SOL), 90 percent of its excess is far above the dust threshold, and
  nothing is sent to the sink.\<close>

theorem surplus_outside_list_counterexample:
  "snapshot balances_A65 [''A'', ''B''] = Inr [65000000, 50000000]
   \<and> 65000000 > bn_div (targetWalletBalanceLamports rb_default * 11) 10
   \<and> sink_pct 0 = 90
   \<and> bn_div ((65000000 - targetWalletBalanceLamports rb_default) * sink_pct 0) 100
       \<ge> dustThresholdLamports rb_default
   \<and> rebalanceWallets rb_default balances_A65 (\<lambda>donor needy amount. True) (\<lambda>w. 0)
        (\<lambda>w amount. True) [''R''] (Some ''S'') [''A'', ''B''] = Inr ([], [])"
  by (simp add: rebalanceWallets_def balances_A65_def rb_default_eval bn_div_def bigint_div_def
        p2p_funding_def needsFunding_def hasSurplus_def remainingSurplus_def upt_rec Let_def
        sink_pct_half)

lemma rebalance_A85:
  "rebalanceWallets rb_default balances_A85 (\<lambda>donor needy amount. True) (\<lambda>w. 1 / 2)
        (\<lambda>w amount. True) [''R''] (Some ''S'') [''A'', ''B'']
     = Inr ([], [\<lparr>sk_wallet = 0, sk_amount = 32900000, sk_confirmed = True\<rparr>])"
  by (simp add: rebalanceWallets_def balances_A85_def rb_default_eval bn_div_def bigint_div_def
        p2p_funding_def needsFunding_def hasSurplus_def remainingSurplus_def upt_rec Let_def
        sink_pct_half)

lemma p2p_A85:
  "balances (p2p_funding rb_default (\<lambda>donor needy amount. True) [''A'', ''B''] [85000000, 50000000])
     = [85000000, 50000000]"
  by (simp add: rb_default_eval p2p_funding_def needsFunding_def hasSurplus_def upt_rec Let_def)

theorem surplus_consolidated_to_sink_witness:
  "snapshot balances_A85 [''A'', ''B''] = Inr [85000000, 50000000]
   \<and> rebalanceWallets rb_default balances_A85 (\<lambda>donor needy amount. True) (\<lambda>w. 1 / 2)
        (\<lambda>w amount. True) [''R''] (Some ''S'') [''A'', ''B'']
       = Inr ([], [\<lparr>sk_wallet = 0, sk_amount = 32900000, sk_confirmed = True\<rparr>])
   \<and> (85000000::int) > bn_div (targetWalletBalanceLamports rb_default * 3) 2
   \<and> sink_pct (1 / 2) = 94
   \<and> sk_amount \<lparr>sk_wallet = 0, sk_amount = 32900000, sk_confirmed = True\<rparr>
        = bn_div ((85000000 - targetWalletBalanceLamports rb_default) * 94) 100
   \<and> 2 * (85000000 - targetWalletBalanceLamports rb_default)
        \<le> 100 * (85000000 - targetWalletBalanceLamports rb_default - 32900000)
   \<and> 100 * (85000000 - targetWalletBalanceLamports rb_default - 32900000)
        \<le> 10 * (85000000 - targetWalletBalanceLamports rb_default) + 99"
proof -
  note inst = surplus_consolidated_to_sink [of rb_default balances_A85 "\<lambda>donor needy amount. True"
      "\<lambda>w. 1 / 2" "\<lambda>w amount. True" "[''R'']" "Some ''S''" "[''A'', ''B'']" "[]"
      "[\<lparr>sk_wallet = 0, sk_amount = 32900000, sk_confirmed = True\<rparr>]" "[85000000, 50000000]"
      "\<lparr>sk_wallet = 0, sk_amount = 32900000, sk_confirmed = True\<rparr>" "1 / 2" 0]
  have snap: "snapshot balances_A85 [''A'', ''B''] = Inr [85000000, 50000000]"
    by (simp add: balances_A85_def)
  have above: "(85000000::int) > bn_div (targetWalletBalanceLamports rb_default * 3) 2"
    by (simp add: rb_default_eval bn_div_def bigint_div_def)
  have dust: "0 \<le> dustThresholdLamports rb_default"
    by (simp add: rb_default_eval)
  from inst snap rebalance_A85
  have "sk_amount \<lparr>sk_wallet = 0, sk_amount = 32900000, sk_confirmed = True\<rparr>
        = bn_div ((balances (p2p_funding rb_default (\<lambda>donor needy amount. True) [''A'', ''B'']
                      [85000000, 50000000]) ! 0
                    - targetWalletBalanceLamports rb_default) * sink_pct (1 / 2)) 100"
    by simp
  then have amount: "sk_amount \<lparr>sk_wallet = 0, sk_amount = 32900000, sk_confirmed = True\<rparr>
        = bn_div ((85000000 - targetWalletBalanceLamports rb_default) * 94) 100"
    by (simp add: p2p_A85 sink_pct_half)
  from inst snap rebalance_A85 dust
  have "2 * (balances (p2p_funding rb_default (\<lambda>donor needy amount. True) [''A'', ''B'']
                      [85000000, 50000000]) ! 0 - targetWalletBalanceLamports rb_default)
        \<le> 100 * (balances (p2p_funding rb_default (\<lambda>donor needy amount. True) [''A'', ''B'']
                      [85000000, 50000000]) ! 0 - targetWalletBalanceLamports rb_default
                    - sk_amount \<lparr>sk_wallet = 0, sk_amount = 32900000, sk_confirmed = True\<rparr>)
     \<and> 100 * (balances (p2p_funding rb_default (\<lambda>donor needy amount. True) [''A'', ''B'']
                      [85000000, 50000000]) ! 0 - targetWalletBalanceLamports rb_default
                    - sk_amount \<lparr>sk_wallet = 0, sk_amount = 32900000, sk_confirmed = True\<rparr>)
        \<le> 10 * (balances (p2p_funding rb_default (\<lambda>donor needy amount. True) [''A'', ''B'']
                      [85000000, 50000000]) ! 0 - targetWalletBalanceLamports rb_default) + 99"
    by simp
  then have kept: "2 * (85000000 - targetWalletBalanceLamports rb_default)
        \<le> 100 * (85000000 - targetWalletBalanceLamports rb_default - 32900000)
     \<and> 100 * (85000000 - targetWalletBalanceLamports rb_default - 32900000)
        \<le> 10 * (85000000 - targetWalletBalanceLamports rb_default) + 99"
    by (simp add: p2p_A85)
  from snap rebalance_A85 above amount kept sink_pct_half(2) show ?thesis
    by simp
qed

end
